theory Spec2Isabelle
  imports Complex_Main
begin

section \<open>Common types\<close>

text \<open>
  The program is \<^verbatim>\<open>xrandream.py\<close>: a PySide2 utility that carves the screen into
  virtual monitors through the \<^verbatim>\<open>xrandr\<close> command line tool.  Python exceptions are
  values of \<open>error\<close>; a Python function that may raise returns \<open>error + 'a\<close>.
\<close>

datatype error = ZeroDivisionError | IndexError | KeyError | ValueError | CalledProcessError int

text \<open>A \<^verbatim>\<open>QPoint\<close> is a pair of ints; \<^verbatim>\<open>QPoint()\<close> is the origin.\<close>

type_synonym QPoint = "int \<times> int"

definition QPoint0 :: QPoint where
  "QPoint0 = (0, 0)"

section \<open>Geometry partitioner: \<^verbatim>\<open>VirtualDisplayManager.divide_screen\<close>\<close>

text \<open>
  \<^verbatim>\<open>
  def divide_screen(self, parts):
      rows = 2 if parts > 3 else 1
      result = []
      w, h = self.screen_dimensions
      pw = math.ceil(w / parts * rows)
      ph = math.ceil(h / rows)
      for r in range(rows):
          result.append([])
          for c in range(parts // rows):
              result[r].append((pw, ph, pw * c, ph * r))
      return result
  \<close>
  The screen size \<open>(w, h)\<close> is read from the primary screen and is a parameter here.
  \<^verbatim>\<open>w / parts\<close> is Python's true division, which raises \<^verbatim>\<open>ZeroDivisionError\<close> for
  \<open>parts = 0\<close>; the quotient is taken in the reals.  (Python computes it in binary64;
  a screen dimension is a 32-bit int, and for such a numerator and the part counts the
  program uses the rounded quotient has the same ceiling as the exact one.)
  \<^verbatim>\<open>range(n)\<close> is empty for \<open>n \<le> 0\<close>, and \<^verbatim>\<open>//\<close> is floor division, as \<open>div\<close> on \<open>int\<close>.
  A cell is the tuple \<open>(pw, ph, x, y)\<close>: width, height, x offset, y offset.
\<close>

type_synonym cell = "int \<times> int \<times> int \<times> int"

definition py_range :: "int \<Rightarrow> nat list" where
  "py_range n = [0..<nat n]"

definition divide_screen :: "int \<Rightarrow> int \<Rightarrow> int \<Rightarrow> error + cell list list" where
  "divide_screen w h parts =
     (let rows = (if parts > 3 then 2 else 1 :: int) in
      if parts = 0 then Inl ZeroDivisionError
      else
        let pw = \<lceil>real_of_int w / real_of_int parts * real_of_int rows\<rceil>;
            ph = \<lceil>real_of_int h / real_of_int rows\<rceil>
        in Inr (map (\<lambda>r. map (\<lambda>c. (pw, ph, pw * int c, ph * int r))
                              (py_range (parts div rows)))
                    (py_range rows)))"

text \<open>The pixels a cell covers: the half-open rectangle of its width and height at its offset.\<close>

fun in_cell :: "cell \<Rightarrow> int \<times> int \<Rightarrow> bool" where
  "in_cell (cw, ch, cx, cy) (px, py) \<longleftrightarrow> cx \<le> px \<and> px < cx + cw \<and> cy \<le> py \<and> py < cy + ch"

section \<open>Display command gateway: class \<^verbatim>\<open>Xrandr\<close>\<close>

text \<open>
  \<^verbatim>\<open>subprocess.check_call(argv)\<close> runs the tool and raises \<^verbatim>\<open>CalledProcessError\<close> when
  its exit status is not zero.  The exit status is the environment's answer to the
  command line, the parameter \<open>run\<close>.
\<close>

definition check_call :: "(string list \<Rightarrow> int) \<Rightarrow> string list \<Rightarrow> error + int" where
  "check_call run argv = (if run argv \<noteq> 0 then Inl (CalledProcessError (run argv)) else Inr 0)"

text \<open>Python's \<^verbatim>\<open>str\<close> of an int, as the f-string of \<^verbatim>\<open>set_monitor\<close> formats it.\<close>

definition digit_char :: "nat \<Rightarrow> char" where
  "digit_char d = char_of (48 + d)"

function str_nat :: "nat \<Rightarrow> string" where
  "str_nat n = (if n < 10 then [digit_char n] else str_nat (n div 10) @ [digit_char (n mod 10)])"
  by pat_completeness auto
termination
  by (relation "measure (\<lambda>n. n)") auto

declare str_nat.simps [simp del]

definition str_int :: "int \<Rightarrow> string" where
  "str_int i = (if i < 0 then CHR ''-'' # str_nat (nat (- i)) else str_nat (nat i))"

text \<open>
  A value a gateway method hands back: Python's \<^verbatim>\<open>None\<close> (falling off the end of the
  body) or a bool.
\<close>

datatype pyval = PyNone | PyBool bool

fun truthy :: "pyval \<Rightarrow> bool" where
  "truthy PyNone = False"
| "truthy (PyBool b) = b"

text \<open>
  \<^verbatim>\<open>
  def del_monitor(name):
      try:
          check_call(["xrandr", "--delmonitor", f'PYR-{name}'])
          return True
      except CalledProcessError:
          return False
  \<close>
\<close>

definition del_monitor_argv :: "string \<Rightarrow> string list" where
  "del_monitor_argv name = [''xrandr'', ''--delmonitor'', ''PYR-'' @ name]"

definition del_monitor :: "(string list \<Rightarrow> int) \<Rightarrow> string \<Rightarrow> error + pyval" where
  "del_monitor run name =
     (case check_call run (del_monitor_argv name) of
        Inr _ \<Rightarrow> Inr (PyBool True)
      | Inl (CalledProcessError _) \<Rightarrow> Inr (PyBool False)
      | Inl e \<Rightarrow> Inl e)"

text \<open>
  \<^verbatim>\<open>
  def set_monitor(name, width, height, offset_x, offset_y, device='none'):
      try:
          check_call(["xrandr", "--setmonitor", f'PYR-{name}',
                      f'{width}/1x{height}/1+{offset_x}+{offset_y}', device])
      except CalledProcessError:
          return False
  \<close>
  The \<^verbatim>\<open>try\<close> body has no \<^verbatim>\<open>return\<close>: when \<^verbatim>\<open>check_call\<close> succeeds the method falls
  off its end and returns \<^verbatim>\<open>None\<close>.
\<close>

definition set_monitor_argv :: "string \<Rightarrow> int \<Rightarrow> int \<Rightarrow> int \<Rightarrow> int \<Rightarrow> string \<Rightarrow> string list" where
  "set_monitor_argv name width height offset_x offset_y device =
     [''xrandr'', ''--setmonitor'', ''PYR-'' @ name,
      str_int width @ ''/1x'' @ str_int height @ ''/1+'' @ str_int offset_x @ ''+'' @ str_int offset_y,
      device]"

definition set_monitor ::
  "(string list \<Rightarrow> int) \<Rightarrow> string \<Rightarrow> int \<Rightarrow> int \<Rightarrow> int \<Rightarrow> int \<Rightarrow> string \<Rightarrow> error + pyval" where
  "set_monitor run name width height offset_x offset_y device =
     (case check_call run (set_monitor_argv name width height offset_x offset_y device) of
        Inr _ \<Rightarrow> Inr PyNone
      | Inl (CalledProcessError _) \<Rightarrow> Inr (PyBool False)
      | Inl e \<Rightarrow> Inl e)"

section \<open>Region selector: class \<^verbatim>\<open>SnippingWidget\<close>\<close>

text \<open>
  The selector is a full-screen widget.  Its fields are those of the class; \<open>visible\<close>
  is the widget's shown state (\<^verbatim>\<open>show()\<close>, \<^verbatim>\<open>close()\<close>), \<open>parent_state\<close> the window
  state of the host window it minimises and restores, and \<open>override_cursors\<close> the depth
  of the application's override cursor stack (\<^verbatim>\<open>setOverrideCursor\<close> pushes,
  \<^verbatim>\<open>restoreOverrideCursor\<close> pops and does nothing on an empty stack).  Drawing and the
  window opacity have no effect on the fields and are left out.  The two callbacks are
  \<^verbatim>\<open>None\<close> or a callable; a call of one is recorded as an \<open>invocation\<close>.
\<close>

datatype WindowState = WindowNoState | WindowMinimized | WindowActive

record ('a, 'b) SnippingWidget =
  is_snipping :: bool
  begin_point :: QPoint
  end_point :: QPoint
  onSnippingCompleted :: "'a option"
  onSnippingCancelled :: "'b option"
  visible :: bool
  parent_state :: WindowState
  override_cursors :: nat

datatype ('a, 'b) invocation = Completed 'a QPoint QPoint | Cancelled 'b

text \<open>\<^verbatim>\<open>Qt.Key_Escape\<close> is the key code \<^verbatim>\<open>0x01000000\<close>.\<close>

definition Key_Escape :: int where
  "Key_Escape = 16777216"

text \<open>\<^verbatim>\<open>__init__\<close>: both points at \<^verbatim>\<open>QPoint()\<close>, no callbacks, not shown.\<close>

definition SnippingWidget_init :: "('a, 'b) SnippingWidget" where
  "SnippingWidget_init =
     \<lparr>is_snipping = False, begin_point = QPoint0, end_point = QPoint0,
      onSnippingCompleted = None, onSnippingCancelled = None,
      visible = False, parent_state = WindowNoState, override_cursors = 0\<rparr>"

text \<open>
  \<^verbatim>\<open>
  def start(self, region_selected_callback=None, selection_cancelled_callback=None):
      SnippingWidget.is_snipping = True
      self.onSnippingCompleted = region_selected_callback
      self.onSnippingCancelled = selection_cancelled_callback
      self.parent.setWindowState(Qt.WindowMinimized)
      self.setWindowOpacity(0.3)
      QApplication.setOverrideCursor(QCursor(Qt.CrossCursor))
      self.setWindowState(Qt.WindowFullScreen)
      self.show()
  \<close>
\<close>

definition start ::
  "'a option \<Rightarrow> 'b option \<Rightarrow> ('a, 'b) SnippingWidget \<Rightarrow> ('a, 'b) SnippingWidget" where
  "start region_selected_callback selection_cancelled_callback s =
     s\<lparr>is_snipping := True,
       onSnippingCompleted := region_selected_callback,
       onSnippingCancelled := selection_cancelled_callback,
       parent_state := WindowMinimized,
       override_cursors := Suc (override_cursors s),
       visible := True\<rparr>"

text \<open>
  \<^verbatim>\<open>paintEvent\<close> resets both points when no capture is running, and otherwise only
  draws.  \<^verbatim>\<open>repaint()\<close> paints at once if the widget is shown; \<^verbatim>\<open>update()\<close> only
  schedules a paint event, which arrives later as the event \<open>Paint\<close>.
\<close>

definition paintEvent :: "('a, 'b) SnippingWidget \<Rightarrow> ('a, 'b) SnippingWidget" where
  "paintEvent s = (if is_snipping s then s else s\<lparr>begin_point := QPoint0, end_point := QPoint0\<rparr>)"

definition repaint :: "('a, 'b) SnippingWidget \<Rightarrow> ('a, 'b) SnippingWidget" where
  "repaint s = (if visible s then paintEvent s else s)"

definition mousePressEvent :: "QPoint \<Rightarrow> ('a, 'b) SnippingWidget \<Rightarrow> ('a, 'b) SnippingWidget" where
  "mousePressEvent pos s = s\<lparr>begin_point := pos, end_point := pos\<rparr>"

definition mouseMoveEvent :: "QPoint \<Rightarrow> ('a, 'b) SnippingWidget \<Rightarrow> ('a, 'b) SnippingWidget" where
  "mouseMoveEvent pos s = s\<lparr>end_point := pos\<rparr>"

text \<open>
  \<^verbatim>\<open>QApplication.processEvents()\<close>, which both handlers below call, dispatches the
  events that are queued at that moment before it returns: handlers run nested inside the
  handler that called it.  What it does to the selector, and the callback invocations made
  meanwhile, is the parameter \<open>processEvents\<close> of the two handlers.
\<close>

text \<open>
  \<^verbatim>\<open>
  def mouseReleaseEvent(self, event):
      SnippingWidget.is_snipping = False
      QApplication.restoreOverrideCursor()
      x1 = min(self.begin.x(), self.end.x())
      y1 = min(self.begin.y(), self.end.y())
      x2 = max(self.begin.x(), self.end.x())
      y2 = max(self.begin.y(), self.end.y())
      self.repaint()
      self.parent.setWindowState(Qt.WindowActive)
      QApplication.processEvents()
      if self.onSnippingCompleted is not None:
          self.onSnippingCompleted(QPoint(x1, y1), QPoint(x2, y2))
      self.onSnippingCompleted = None
      self.close()
  \<close>
  The handler returns the new widget and the callback invocations made while it ran, in
  order.
\<close>

definition mouseReleaseEvent ::
  "(('a, 'b) SnippingWidget \<Rightarrow> ('a, 'b) SnippingWidget \<times> ('a, 'b) invocation list) \<Rightarrow>
   ('a, 'b) SnippingWidget \<Rightarrow> ('a, 'b) SnippingWidget \<times> ('a, 'b) invocation list" where
  "mouseReleaseEvent processEvents s =
     (let s1 = s\<lparr>is_snipping := False, override_cursors := override_cursors s - 1\<rparr>;
          x1 = min (fst (begin_point s1)) (fst (end_point s1));
          y1 = min (snd (begin_point s1)) (snd (end_point s1));
          x2 = max (fst (begin_point s1)) (fst (end_point s1));
          y2 = max (snd (begin_point s1)) (snd (end_point s1));
          s2 = repaint s1;
          s3 = s2\<lparr>parent_state := WindowActive\<rparr>
      in case processEvents s3 of
           (s4, nested) \<Rightarrow>
             (s4\<lparr>onSnippingCompleted := None, visible := False\<rparr>,
              nested @ (case onSnippingCompleted s4 of
                          Some cb \<Rightarrow> [Completed cb (x1, y1) (x2, y2)]
                        | None \<Rightarrow> [])))"

text \<open>
  \<^verbatim>\<open>
  def keyPressEvent(self, event):
      if event.key() == Qt.Key_Escape:
          QApplication.restoreOverrideCursor()
          self.repaint()
          self.parent.setWindowState(Qt.WindowActive)
          QApplication.processEvents()
          self.onSnippingCompleted = None
          if self.onSnippingCancelled is not None:
              self.onSnippingCancelled()
          self.onSnippingCancelled = None
          self.close()
  \<close>
  The completion callback is cleared after \<^verbatim>\<open>processEvents()\<close> has returned.
\<close>

definition keyPressEvent ::
  "int \<Rightarrow> (('a, 'b) SnippingWidget \<Rightarrow> ('a, 'b) SnippingWidget \<times> ('a, 'b) invocation list) \<Rightarrow>
   ('a, 'b) SnippingWidget \<Rightarrow> ('a, 'b) SnippingWidget \<times> ('a, 'b) invocation list" where
  "keyPressEvent key processEvents s =
     (if key = Key_Escape then
        let s1 = s\<lparr>override_cursors := override_cursors s - 1\<rparr>;
            s2 = repaint s1;
            s3 = s2\<lparr>parent_state := WindowActive\<rparr>
        in case processEvents s3 of
             (s4, nested) \<Rightarrow>
               let s5 = s4\<lparr>onSnippingCompleted := None\<rparr>
               in (s5\<lparr>onSnippingCancelled := None, visible := False\<rparr>,
                   nested @ (case onSnippingCancelled s5 of
                               Some cb \<Rightarrow> [Cancelled cb]
                             | None \<Rightarrow> []))
      else (s, []))"

text \<open>
  The events the windowing system sends to the widget.  It sends input and paint events
  only to a widget that is shown, so an event for a closed selector is dropped.  A mouse
  release and a key press carry the events for the selector that are queued when their
  handler reaches \<^verbatim>\<open>processEvents()\<close>: these are dispatched there, one after the
  other, each to the widget if it is still shown.  An empty queue is the case that nothing
  further has arrived by then.  (Events queued for other widgets are not part of the
  queue; a toggle of a push button is an event of its own.)
\<close>

datatype sel_event =
    MousePress QPoint
  | MouseMove QPoint
  | MouseRelease "sel_event list"
  | KeyPress int "sel_event list"
  | Paint

fun handle_event ::
  "sel_event \<Rightarrow> ('a, 'b) SnippingWidget \<Rightarrow> ('a, 'b) SnippingWidget \<times> ('a, 'b) invocation list"
and run_events ::
  "sel_event list \<Rightarrow> ('a, 'b) SnippingWidget \<Rightarrow> ('a, 'b) SnippingWidget \<times> ('a, 'b) invocation list"
where
  "handle_event (MousePress pos) s = (mousePressEvent pos s, [])"
| "handle_event (MouseMove pos) s = (mouseMoveEvent pos s, [])"
| "handle_event (MouseRelease queued) s = mouseReleaseEvent (run_events queued) s"
| "handle_event (KeyPress key queued) s = keyPressEvent key (run_events queued) s"
| "handle_event Paint s = (paintEvent s, [])"
| "run_events [] s = (s, [])"
| "run_events (ev # evs) s =
     (case (if visible s then handle_event ev s else (s, [])) of
        (s1, calls1) \<Rightarrow>
          (case run_events evs s1 of (s2, calls2) \<Rightarrow> (s2, calls1 @ calls2)))"

definition deliver ::
  "sel_event \<Rightarrow> ('a, 'b) SnippingWidget \<Rightarrow> ('a, 'b) SnippingWidget \<times> ('a, 'b) invocation list" where
  "deliver ev s = (if visible s then handle_event ev s else (s, []))"

section \<open>Outline overlay: class \<^verbatim>\<open>OutlineWidget\<close>\<close>

text \<open>
  An overlay window keeps the two corner points it was built from; its position is
  \<^verbatim>\<open>coordinates\<close> and its extent is \<^verbatim>\<open>size\<close>, which is also the geometry the
  constructor gives the window.
\<close>

record OutlineWidget =
  outline_start :: QPoint
  outline_end :: QPoint

definition OutlineWidget_init :: "QPoint \<Rightarrow> QPoint \<Rightarrow> OutlineWidget" where
  "OutlineWidget_init start_pt end_pt = \<lparr>outline_start = start_pt, outline_end = end_pt\<rparr>"

definition coordinates :: "OutlineWidget \<Rightarrow> int \<times> int" where
  "coordinates ow = (fst (outline_start ow), snd (outline_start ow))"

definition size_of :: "OutlineWidget \<Rightarrow> int \<times> int" where
  "size_of ow = (fst (outline_end ow) - fst (outline_start ow), snd (outline_end ow) - snd (outline_start ow))"

section \<open>Reading the monitor list\<close>

text \<open>
  \<^verbatim>\<open>init_active_monitors\<close> takes the geometry of a listed monitor apart with
  \<^verbatim>\<open>re.findall(r'(\d+)/\d+x(\d+)/\d+\+(\d+)\+(\d+)', dimensions)[0]\<close>.
  The pattern is a sequence of literal characters and digit runs \<^verbatim>\<open>\d+\<close>, four of them
  capturing.  \<open>match_toks\<close> matches such a sequence at the start of a string the way the
  backtracking matcher does: a digit run is greedy, it first takes all the digits there
  are and gives them back one at a time while the rest of the pattern fails.  The first
  element of \<^verbatim>\<open>findall\<close> is the match at the leftmost position where there is one;
  with no match the list is empty and \<^verbatim>\<open>[0]\<close> raises \<^verbatim>\<open>IndexError\<close>.
  Characters are bytes here, so \<^verbatim>\<open>\d\<close> is an ASCII digit.
\<close>

definition isdigit :: "char \<Rightarrow> bool" where
  "isdigit c \<longleftrightarrow> 48 \<le> (of_char c :: nat) \<and> (of_char c :: nat) \<le> 57"

datatype tok = Lit char | Digits | DigitsGroup

fun first_some :: "'a option list \<Rightarrow> 'a option" where
  "first_some [] = None"
| "first_some (Some x # xs) = Some x"
| "first_some (None # xs) = first_some xs"

fun match_toks :: "tok list \<Rightarrow> string \<Rightarrow> string list option" where
  "match_toks [] s = Some []"
| "match_toks (Lit c # ts) s =
     (case s of [] \<Rightarrow> None | c' # s' \<Rightarrow> if c' = c then match_toks ts s' else None)"
| "match_toks (Digits # ts) s =
     first_some (map (\<lambda>n. match_toks ts (drop n s))
                     (rev [1 ..< Suc (length (takeWhile isdigit s))]))"
| "match_toks (DigitsGroup # ts) s =
     first_some (map (\<lambda>n. map_option (\<lambda>groups. take n s # groups) (match_toks ts (drop n s)))
                     (rev [1 ..< Suc (length (takeWhile isdigit s))]))"

fun search_toks :: "tok list \<Rightarrow> string \<Rightarrow> string list option" where
  "search_toks ts [] = match_toks ts []"
| "search_toks ts (c # s) =
     (case match_toks ts (c # s) of Some groups \<Rightarrow> Some groups | None \<Rightarrow> search_toks ts s)"

definition geometry_pattern :: "tok list" where
  "geometry_pattern =
     [DigitsGroup, Lit (CHR ''/''), Digits, Lit (CHR ''x''),
      DigitsGroup, Lit (CHR ''/''), Digits, Lit (CHR ''+''),
      DigitsGroup, Lit (CHR ''+''), DigitsGroup]"

text \<open>Python's \<^verbatim>\<open>int\<close> of a string of digits.\<close>

definition py_int :: "string \<Rightarrow> int" where
  "py_int s = foldl (\<lambda>a c. 10 * a + (int (of_char c) - 48)) 0 s"

definition parse_dimensions :: "string \<Rightarrow> error + (int \<times> int \<times> int \<times> int)" where
  "parse_dimensions dimensions =
     (case search_toks geometry_pattern dimensions of
        None \<Rightarrow> Inl IndexError
      | Some [w, h, x, y] \<Rightarrow> Inr (py_int w, py_int h, py_int x, py_int y)
      | Some _ \<Rightarrow> Inl ValueError)"

text \<open>\<^verbatim>\<open>name.replace('PYR-', '')\<close>: every occurrence of the prefix text is removed, left to right.\<close>

function replace_PYR :: "string \<Rightarrow> string" where
  "replace_PYR s =
     (if s = [] then []
      else if take 4 s = ''PYR-'' then replace_PYR (drop 4 s)
      else hd s # replace_PYR (tl s))"
  by pat_completeness auto
termination
  by (relation "measure length") auto

declare replace_PYR.simps [simp del]

section \<open>Display manager: class \<^verbatim>\<open>VirtualDisplayManager\<close>\<close>

text \<open>
  The keys of the dict \<^verbatim>\<open>enabled_displays\<close> are fixed by the constructor and never
  change, so the areas are a datatype (in the order of the dict) and the dict is a total
  function on it; \<open>area_name\<close> is the key string of an area and \<open>lookup_area\<close> the
  test \<^verbatim>\<open>name in self.enabled_displays\<close> on a string.
\<close>

datatype region =
    Select_region | Full_screen | Right_half | Left_half
  | Left_third | Center_third | Right_third
  | Top_left_quarter | Top_right_quarter | Bottom_left_quarter | Bottom_right_quarter
  | Top_left_sixth | Top_center_sixth | Top_right_sixth
  | Bottom_left_sixth | Bottom_center_sixth | Bottom_right_sixth

fun area_name :: "region \<Rightarrow> string" where
  "area_name Select_region = ''select_region''"
| "area_name Full_screen = ''full_screen''"
| "area_name Right_half = ''right_half''"
| "area_name Left_half = ''left_half''"
| "area_name Left_third = ''left_third''"
| "area_name Center_third = ''center_third''"
| "area_name Right_third = ''right_third''"
| "area_name Top_left_quarter = ''top_left_quarter''"
| "area_name Top_right_quarter = ''top_right_quarter''"
| "area_name Bottom_left_quarter = ''bottom_left_quarter''"
| "area_name Bottom_right_quarter = ''bottom_right_quarter''"
| "area_name Top_left_sixth = ''top_left_sixth''"
| "area_name Top_center_sixth = ''top_center_sixth''"
| "area_name Top_right_sixth = ''top_right_sixth''"
| "area_name Bottom_left_sixth = ''bottom_left_sixth''"
| "area_name Bottom_center_sixth = ''bottom_center_sixth''"
| "area_name Bottom_right_sixth = ''bottom_right_sixth''"

definition regions :: "region list" where
  "regions =
     [Select_region, Full_screen, Right_half, Left_half,
      Left_third, Center_third, Right_third,
      Top_left_quarter, Top_right_quarter, Bottom_left_quarter, Bottom_right_quarter,
      Top_left_sixth, Top_center_sixth, Top_right_sixth,
      Bottom_left_sixth, Bottom_center_sixth, Bottom_right_sixth]"

definition lookup_area :: "string \<Rightarrow> region option" where
  "lookup_area name = find (\<lambda>r. area_name r = name) regions"

text \<open>
  The state the manager works on: its own fields (the screen size it reads from the
  primary screen, \<^verbatim>\<open>enabled_displays\<close>, \<^verbatim>\<open>rectangles\<close>), and what it reaches through
  \<^verbatim>\<open>self.main_window\<close>: the checked state of the push button of every area and the
  region selector.  \<open>xrandr_calls\<close> records the command line of every call of the
  gateway, in order.

  \<open>windows\<close> are the overlay windows on the screen: the \<^verbatim>\<open>OutlineWidget\<close>s that have
  been constructed (the constructor shows the window) and not destroyed, each with the
  area it was made for.  The code stores every overlay it makes in \<^verbatim>\<open>rectangles\<close>
  under its area, and destroys only the entry of an area.  Two places assign to the dict
  without destroying what the entry held; what the toolkit does with a window that
  nothing refers to any more is not decided here: such a window stays in \<open>windows\<close>.
\<close>

record manager =
  screen_dimensions :: "int \<times> int"
  enabled_displays :: "region \<Rightarrow> bool"
  rectangles :: "region \<rightharpoonup> OutlineWidget"
  windows :: "(region \<times> OutlineWidget) list"
  buttons :: "region \<Rightarrow> bool"
  xrandr_calls :: "string list list"
  region_selector :: "(unit, unit) SnippingWidget"

text \<open>
  The manager never looks at what a gateway method returns, and the gateway catches
  \<^verbatim>\<open>CalledProcessError\<close> itself: whatever the exit status, a gateway call leaves the
  manager's state as it is, apart from the record of the call.
\<close>

definition Xrandr_del_monitor :: "string \<Rightarrow> manager \<Rightarrow> manager" where
  "Xrandr_del_monitor name m = m\<lparr>xrandr_calls := xrandr_calls m @ [del_monitor_argv name]\<rparr>"

definition Xrandr_set_monitor :: "string \<Rightarrow> int \<Rightarrow> int \<Rightarrow> int \<Rightarrow> int \<Rightarrow> manager \<Rightarrow> manager" where
  "Xrandr_set_monitor name width height offset_x offset_y m =
     m\<lparr>xrandr_calls := xrandr_calls m @ [set_monitor_argv name width height offset_x offset_y ''none'']\<rparr>"

text \<open>
  \<^verbatim>\<open>self.rectangles[area] = OutlineWidget(start, end)\<close> makes a window and stores it
  under the area; \<^verbatim>\<open>self.rectangles[area].destroy()\<close> destroys the window stored there
  (every call of it in the code is guarded by \<^verbatim>\<open>area in self.rectangles\<close>).
\<close>

definition store_overlay :: "region \<Rightarrow> QPoint \<Rightarrow> QPoint \<Rightarrow> manager \<Rightarrow> manager" where
  "store_overlay area start_pt end_pt m =
     m\<lparr>rectangles := (rectangles m)(area \<mapsto> OutlineWidget_init start_pt end_pt),
       windows := windows m @ [(area, OutlineWidget_init start_pt end_pt)]\<rparr>"

definition destroy_overlay :: "region \<Rightarrow> manager \<Rightarrow> manager" where
  "destroy_overlay area m =
     (case rectangles m area of
        None \<Rightarrow> m
      | Some ow \<Rightarrow> m\<lparr>windows := remove1 (area, ow) (windows m)\<rparr>)"

text \<open>
  \<^verbatim>\<open>
  def check_invalid_state(self, area, enabled):
      return enabled == self.enabled_displays[area]

  def set_state(self, area, enabled):
      if self.check_invalid_state(area, enabled):
          return False
      self.enabled_displays[area] = enabled
      self.main_window.findChild(QPushButton, f'push_button_{area}').setChecked(enabled)
      if not enabled and area in self.rectangles:
          self.rectangles[area].destroy()
          del self.rectangles[area]
      return True
  \<close>
  \<^verbatim>\<open>setChecked\<close> sets the button.  When that changes the button and its \<^verbatim>\<open>toggled\<close>
  signal is connected, Qt calls the area's handler with the same value from inside
  \<^verbatim>\<open>setChecked\<close>; the flag has been written by then, so that nested call stops at its own
  \<^verbatim>\<open>set_state\<close>, which returns \<^verbatim>\<open>False\<close> with nothing changed.
\<close>

definition check_invalid_state :: "manager \<Rightarrow> region \<Rightarrow> bool \<Rightarrow> bool" where
  "check_invalid_state m area enabled \<longleftrightarrow> enabled = enabled_displays m area"

definition setChecked :: "region \<Rightarrow> bool \<Rightarrow> manager \<Rightarrow> manager" where
  "setChecked area enabled m = m\<lparr>buttons := (buttons m)(area := enabled)\<rparr>"

definition set_state :: "manager \<Rightarrow> region \<Rightarrow> bool \<Rightarrow> bool \<times> manager" where
  "set_state m area enabled =
     (if check_invalid_state m area enabled then (False, m)
      else
        let m1 = m\<lparr>enabled_displays := (enabled_displays m)(area := enabled)\<rparr>;
            m2 = setChecked area enabled m1;
            m3 = (if \<not> enabled \<and> area \<in> dom (rectangles m2)
                  then (destroy_overlay area m2)\<lparr>rectangles := (rectangles m2)(area := None)\<rparr>
                  else m2)
        in (True, m3))"

text \<open>
  \<^verbatim>\<open>
  def draw_outline(self, area, w, h, x, y):
      if area in self.rectangles:
          self.rectangles[area].destroy()
      self.rectangles[area] = OutlineWidget(QPoint(x, y), QPoint(x + w, y + h))
  \<close>
\<close>

definition draw_outline :: "manager \<Rightarrow> region \<Rightarrow> int \<Rightarrow> int \<Rightarrow> int \<Rightarrow> int \<Rightarrow> manager" where
  "draw_outline m area w h x y =
     (let m1 = (if area \<in> dom (rectangles m) then destroy_overlay area m else m)
      in store_overlay area (x, y) (x + w, y + h) m1)"

text \<open>
  \<^verbatim>\<open>
  def select_region(self, enabled):
      if not self.set_state('select_region', enabled):
          return
      if enabled:
          self.main_window.region_selector.start(self.complete_region_selection,
                                                 self.cancel_region_selection)
      else:
          Xrandr.del_monitor('select_region')

  def complete_region_selection(self, start, end):
      self.rectangles['select_region'] = OutlineWidget(start, end)
      Xrandr.set_monitor('select_region', end.x() - start.x(), end.y() - start.y(),
                         start.x(), start.y())

  def cancel_region_selection(self):
      self.set_state('select_region', False)
  \<close>
  The two callbacks handed to the selector are the manager's own methods; the selector
  holds them as the unit value.
\<close>

definition select_region :: "manager \<Rightarrow> bool \<Rightarrow> error + manager" where
  "select_region m enabled =
     (case set_state m Select_region enabled of
        (False, m1) \<Rightarrow> Inr m1
      | (True, m1) \<Rightarrow>
          if enabled
          then Inr (m1\<lparr>region_selector := start (Some ()) (Some ()) (region_selector m1)\<rparr>)
          else Inr (Xrandr_del_monitor ''select_region'' m1))"

definition complete_region_selection :: "manager \<Rightarrow> QPoint \<Rightarrow> QPoint \<Rightarrow> manager" where
  "complete_region_selection m start_pt end_pt =
     (let m1 = store_overlay Select_region start_pt end_pt m
      in Xrandr_set_monitor ''select_region''
           (fst end_pt - fst start_pt) (snd end_pt - snd start_pt) (fst start_pt) (snd start_pt) m1)"

definition cancel_region_selection :: "manager \<Rightarrow> manager" where
  "cancel_region_selection m = snd (set_state m Select_region False)"

text \<open>
  \<^verbatim>\<open>
  def select_full_screen(self, enabled):
      if not self.set_state('full_screen', enabled):
          return
      if enabled:
          w, h = self.screen_dimensions
          Xrandr.set_monitor('full_screen', w, h, 0, 0)
          self.rectangles['full_screen'] = OutlineWidget(QPoint(0, 0), QPoint(w, h))
      else:
          Xrandr.del_monitor('full_screen')
  \<close>
\<close>

definition select_full_screen :: "manager \<Rightarrow> bool \<Rightarrow> error + manager" where
  "select_full_screen m enabled =
     (case set_state m Full_screen enabled of
        (False, m1) \<Rightarrow> Inr m1
      | (True, m1) \<Rightarrow>
          if enabled
          then (case screen_dimensions m1 of (w, h) \<Rightarrow>
                  let m2 = Xrandr_set_monitor ''full_screen'' w h 0 0 m1
                  in Inr (store_overlay Full_screen (0, 0) (w, h) m2))
          else Inr (Xrandr_del_monitor ''full_screen'' m1))"

text \<open>
  The fifteen handlers of the grid areas are one text with three things changed: the
  area, the number of parts and the position in the grid.  For the left half:
  \<^verbatim>\<open>
  def select_left_half(self, enabled):
      if not self.set_state('left_half', enabled):
          return
      if enabled:
          dimensions = self.divide_screen(2)[0][0]
          Xrandr.set_monitor('left_half', *dimensions)
          self.draw_outline('left_half', *dimensions)
      else:
          Xrandr.del_monitor('left_half')
  \<close>
  \<open>select_cell\<close> is that text with the three as parameters; indexing a list out of its
  range raises \<^verbatim>\<open>IndexError\<close>.
\<close>

definition index_cell :: "cell list list \<Rightarrow> nat \<Rightarrow> nat \<Rightarrow> error + cell" where
  "index_cell grid r c =
     (if r < length grid then
        (if c < length (grid ! r) then Inr (grid ! r ! c) else Inl IndexError)
      else Inl IndexError)"

definition select_cell :: "region \<Rightarrow> int \<Rightarrow> nat \<Rightarrow> nat \<Rightarrow> manager \<Rightarrow> bool \<Rightarrow> error + manager" where
  "select_cell area parts r c m enabled =
     (case set_state m area enabled of
        (False, m1) \<Rightarrow> Inr m1
      | (True, m1) \<Rightarrow>
          if enabled
          then (case divide_screen (fst (screen_dimensions m1)) (snd (screen_dimensions m1)) parts of
                  Inl e \<Rightarrow> Inl e
                | Inr grid \<Rightarrow>
                    (case index_cell grid r c of
                       Inl e \<Rightarrow> Inl e
                     | Inr (pw, ph, x, y) \<Rightarrow>
                         Inr (draw_outline (Xrandr_set_monitor (area_name area) pw ph x y m1)
                                area pw ph x y)))
          else Inr (Xrandr_del_monitor (area_name area) m1))"

definition select_left_half :: "manager \<Rightarrow> bool \<Rightarrow> error + manager" where
  "select_left_half = select_cell Left_half 2 0 0"

definition select_right_half :: "manager \<Rightarrow> bool \<Rightarrow> error + manager" where
  "select_right_half = select_cell Right_half 2 0 1"

definition select_left_third :: "manager \<Rightarrow> bool \<Rightarrow> error + manager" where
  "select_left_third = select_cell Left_third 3 0 0"

definition select_center_third :: "manager \<Rightarrow> bool \<Rightarrow> error + manager" where
  "select_center_third = select_cell Center_third 3 0 1"

definition select_right_third :: "manager \<Rightarrow> bool \<Rightarrow> error + manager" where
  "select_right_third = select_cell Right_third 3 0 2"

definition select_top_left_quarter :: "manager \<Rightarrow> bool \<Rightarrow> error + manager" where
  "select_top_left_quarter = select_cell Top_left_quarter 4 0 0"

definition select_top_right_quarter :: "manager \<Rightarrow> bool \<Rightarrow> error + manager" where
  "select_top_right_quarter = select_cell Top_right_quarter 4 0 1"

definition select_bottom_left_quarter :: "manager \<Rightarrow> bool \<Rightarrow> error + manager" where
  "select_bottom_left_quarter = select_cell Bottom_left_quarter 4 1 0"

definition select_bottom_right_quarter :: "manager \<Rightarrow> bool \<Rightarrow> error + manager" where
  "select_bottom_right_quarter = select_cell Bottom_right_quarter 4 1 1"

definition select_top_left_sixth :: "manager \<Rightarrow> bool \<Rightarrow> error + manager" where
  "select_top_left_sixth = select_cell Top_left_sixth 6 0 0"

definition select_top_center_sixth :: "manager \<Rightarrow> bool \<Rightarrow> error + manager" where
  "select_top_center_sixth = select_cell Top_center_sixth 6 0 1"

definition select_top_right_sixth :: "manager \<Rightarrow> bool \<Rightarrow> error + manager" where
  "select_top_right_sixth = select_cell Top_right_sixth 6 0 2"

definition select_bottom_left_sixth :: "manager \<Rightarrow> bool \<Rightarrow> error + manager" where
  "select_bottom_left_sixth = select_cell Bottom_left_sixth 6 1 0"

definition select_bottom_center_sixth :: "manager \<Rightarrow> bool \<Rightarrow> error + manager" where
  "select_bottom_center_sixth = select_cell Bottom_center_sixth 6 1 1"

definition select_bottom_right_sixth :: "manager \<Rightarrow> bool \<Rightarrow> error + manager" where
  "select_bottom_right_sixth = select_cell Bottom_right_sixth 6 1 2"

text \<open>
  \<^verbatim>\<open>PyRandrWidget.connect_ui\<close> connects the \<^verbatim>\<open>toggled\<close> signal of the push button of
  every area to the handler of that area.
\<close>

fun toggled :: "region \<Rightarrow> manager \<Rightarrow> bool \<Rightarrow> error + manager" where
  "toggled Select_region = select_region"
| "toggled Full_screen = select_full_screen"
| "toggled Right_half = select_right_half"
| "toggled Left_half = select_left_half"
| "toggled Left_third = select_left_third"
| "toggled Center_third = select_center_third"
| "toggled Right_third = select_right_third"
| "toggled Top_left_quarter = select_top_left_quarter"
| "toggled Top_right_quarter = select_top_right_quarter"
| "toggled Bottom_left_quarter = select_bottom_left_quarter"
| "toggled Bottom_right_quarter = select_bottom_right_quarter"
| "toggled Top_left_sixth = select_top_left_sixth"
| "toggled Top_center_sixth = select_top_center_sixth"
| "toggled Top_right_sixth = select_top_right_sixth"
| "toggled Bottom_left_sixth = select_bottom_left_sixth"
| "toggled Bottom_center_sixth = select_bottom_center_sixth"
| "toggled Bottom_right_sixth = select_bottom_right_sixth"

text \<open>
  \<^verbatim>\<open>
  def init_active_monitors(self):
      for _, name, dimensions, _ in Xrandr.list_monitors():
          if name.startswith('PYR-') and name[4:] in self.enabled_displays:
              name = name.replace('PYR-', '')
              w, h, x, y = (int(i) for i in re.findall(
                  r'(\d+)/\d+x(\d+)/\d+\+(\d+)\+(\d+)', dimensions)[0])
              self.draw_outline(name, w, h, x, y)
              self.set_state(name, True)
  \<close>
  The list \<^verbatim>\<open>list_monitors\<close> returns, tuples of four strings, is the parameter.
  \<^verbatim>\<open>set_state\<close> looks its area up in \<^verbatim>\<open>enabled_displays\<close> and raises \<^verbatim>\<open>KeyError\<close>
  for a string that is no key.
\<close>

fun init_active_monitors ::
  "(string \<times> string \<times> string \<times> string) list \<Rightarrow> manager \<Rightarrow> error + manager" where
  "init_active_monitors [] m = Inr m"
| "init_active_monitors ((idx, name, dimensions, device) # rest) m =
     (if take 4 name = ''PYR-'' \<and> lookup_area (drop 4 name) \<noteq> None then
        (case parse_dimensions dimensions of
           Inl e \<Rightarrow> Inl e
         | Inr (w, h, x, y) \<Rightarrow>
             (case lookup_area (replace_PYR name) of
                None \<Rightarrow> Inl KeyError
              | Some area \<Rightarrow>
                  init_active_monitors rest (snd (set_state (draw_outline m area w h x y) area True))))
      else init_active_monitors rest m)"

text \<open>
  The constructor: every area disabled, no overlay, then \<^verbatim>\<open>init_active_monitors\<close>.
  The screen size, the checked state the buttons have in the loaded form, and the monitor
  list are the parameters.  The main window builds its region selector right after the
  manager, so the selector starts in its initial state.
\<close>

definition VirtualDisplayManager_init ::
  "int \<times> int \<Rightarrow> (region \<Rightarrow> bool) \<Rightarrow> (string \<times> string \<times> string \<times> string) list \<Rightarrow> error + manager" where
  "VirtualDisplayManager_init screen_size form_buttons monitors =
     init_active_monitors monitors
       \<lparr>screen_dimensions = screen_size,
        enabled_displays = (\<lambda>area. False),
        rectangles = Map.empty,
        windows = [],
        buttons = form_buttons,
        xrandr_calls = [],
        region_selector = SnippingWidget_init\<rparr>"

text \<open>
  The events of the running program: the user toggles the push button of an area (Qt sets
  the button and emits \<^verbatim>\<open>toggled\<close> with the new state), or the windowing system sends
  an event to the region selector, whose callback invocations are the manager's
  \<^verbatim>\<open>complete_region_selection\<close> and \<^verbatim>\<open>cancel_region_selection\<close>.  Neither callback
  reads or writes the selector, so they are applied, in the order they were made, to the
  state the handler leaves.
  A run stops at the first exception.
\<close>

datatype event = Toggled region bool | Selector sel_event

fun invoke :: "manager \<Rightarrow> (unit, unit) invocation \<Rightarrow> manager" where
  "invoke m (Completed cb start_pt end_pt) = complete_region_selection m start_pt end_pt"
| "invoke m (Cancelled cb) = cancel_region_selection m"

fun handle :: "event \<Rightarrow> manager \<Rightarrow> error + manager" where
  "handle (Toggled area checked) m =
     toggled area (m\<lparr>buttons := (buttons m)(area := checked)\<rparr>) checked"
| "handle (Selector ev) m =
     (case deliver ev (region_selector m) of
        (sel, calls) \<Rightarrow> Inr (foldl invoke (m\<lparr>region_selector := sel\<rparr>) calls))"

fun run_app :: "event list \<Rightarrow> manager \<Rightarrow> error + manager" where
  "run_app [] m = Inr m"
| "run_app (ev # evs) m = (case handle ev m of Inl e \<Rightarrow> Inl e | Inr m1 \<Rightarrow> run_app evs m1)"

section \<open>Notions the properties are stated with\<close>

text \<open>
  What handling events can have done to a capture that was running with the callbacks
  \<open>cb\<close> and \<open>cc\<close>: it is still running and no callback was called, or the selector is
  closed and the calls were the completion alone (the cancellation callback still held),
  the cancellation alone, or the completion followed by the cancellation.
\<close>

definition capture_outcome ::
  "'a \<Rightarrow> 'b \<Rightarrow> ('a, 'b) SnippingWidget \<times> ('a, 'b) invocation list \<Rightarrow> bool" where
  "capture_outcome cb cc res \<longleftrightarrow>
     (visible (fst res) \<and> onSnippingCompleted (fst res) = Some cb
        \<and> onSnippingCancelled (fst res) = Some cc \<and> snd res = [])
     \<or> (\<not> visible (fst res) \<and> onSnippingCompleted (fst res) = None
          \<and> ((onSnippingCancelled (fst res) = Some cc \<and> (\<exists>p q. snd res = [Completed cb p q]))
               \<or> (onSnippingCancelled (fst res) = None
                    \<and> (snd res = [Cancelled cc] \<or> (\<exists>p q. snd res = [Completed cb p q, Cancelled cc])))))"

text \<open>
  The overlay windows on the screen that were made for an area; a capture is running
  while the selector is shown and still holds its completion callback; and an event
  sequence in which \<^verbatim>\<open>select_region\<close> is not toggled off while a capture is running.
\<close>

definition live_overlays :: "manager \<Rightarrow> region \<Rightarrow> OutlineWidget list" where
  "live_overlays m area = map snd (filter (\<lambda>w. fst w = area) (windows m))"

definition capturing :: "manager \<Rightarrow> bool" where
  "capturing m \<longleftrightarrow>
     visible (region_selector m) \<and> onSnippingCompleted (region_selector m) \<noteq> None"

fun undisturbed :: "event list \<Rightarrow> manager \<Rightarrow> bool" where
  "undisturbed [] m = True"
| "undisturbed (ev # evs) m =
     ((ev = Toggled Select_region False \<longrightarrow> \<not> capturing m)
      \<and> (case handle ev m of Inl e \<Rightarrow> True | Inr m1 \<Rightarrow> undisturbed evs m1))"

text \<open>
  Two invariants of the running program.  The first holds in every state: for an area
  other than \<^verbatim>\<open>select_region\<close> the flag is set exactly when the dict holds an overlay,
  and the windows made for the area are that one overlay; a set flag of
  \<^verbatim>\<open>select_region\<close> without an overlay in the dict means that a capture is running; the
  overlay the dict holds for \<^verbatim>\<open>select_region\<close> is a window on the screen; and a shown
  selector holds both callbacks.  The second is about \<^verbatim>\<open>select_region\<close> and holds as long
  as the area is not toggled off during a capture.
\<close>

definition consistent :: "manager \<Rightarrow> bool" where
  "consistent m \<longleftrightarrow>
     (\<forall>area. area \<noteq> Select_region \<longrightarrow>
        (enabled_displays m area \<longleftrightarrow> rectangles m area \<noteq> None)
        \<and> filter (\<lambda>w. fst w = area) (windows m) =
            (case rectangles m area of None \<Rightarrow> [] | Some ow \<Rightarrow> [(area, ow)]))
     \<and> (enabled_displays m Select_region \<and> rectangles m Select_region = None \<longrightarrow> capturing m)
     \<and> (\<forall>ow. rectangles m Select_region = Some ow \<longrightarrow> (Select_region, ow) \<in> set (windows m))
     \<and> (visible (region_selector m) \<longrightarrow>
          onSnippingCompleted (region_selector m) = Some ()
          \<and> onSnippingCancelled (region_selector m) = Some ())"

definition selection_settled :: "manager \<Rightarrow> bool" where
  "selection_settled m \<longleftrightarrow>
     (rectangles m Select_region \<noteq> None \<longrightarrow> enabled_displays m Select_region)
     \<and> (capturing m \<longrightarrow> enabled_displays m Select_region \<and> rectangles m Select_region = None)
     \<and> filter (\<lambda>w. fst w = Select_region) (windows m) =
         (case rectangles m Select_region of None \<Rightarrow> [] | Some ow \<Rightarrow> [(Select_region, ow)])"

section \<open>Properties of the geometry partitioner\<close>

subsection \<open>Arithmetic of the ceiling and of a strip of equal cells\<close>

lemma ceil_bounds:
  fixes w :: int and k :: int
  assumes "0 < k"
  shows "w \<le> \<lceil>real_of_int w / real_of_int k\<rceil> * k" and "\<lceil>real_of_int w / real_of_int k\<rceil> * k < w + k"
proof -
  have k: "0 < real_of_int k" using assms by simp
  have "real_of_int w / real_of_int k \<le> real_of_int \<lceil>real_of_int w / real_of_int k\<rceil>" by (rule le_of_int_ceiling)
  then have "real_of_int w \<le> real_of_int \<lceil>real_of_int w / real_of_int k\<rceil> * real_of_int k"
    using pos_divide_le_eq [OF k] by blast
  then have "real_of_int w \<le> real_of_int (\<lceil>real_of_int w / real_of_int k\<rceil> * k)" by simp
  then show "w \<le> \<lceil>real_of_int w / real_of_int k\<rceil> * k" by (simp only: of_int_le_iff)
  have "real_of_int \<lceil>real_of_int w / real_of_int k\<rceil> < real_of_int w / real_of_int k + 1"
    using ceiling_correct [of "real_of_int w / real_of_int k"] by linarith
  then have "real_of_int \<lceil>real_of_int w / real_of_int k\<rceil> * real_of_int k < (real_of_int w / real_of_int k + 1) * real_of_int k"
    using k by (simp only: mult_strict_right_mono)
  also have "\<dots> = real_of_int w + real_of_int k" using k by (simp add: field_simps)
  finally have "real_of_int (\<lceil>real_of_int w / real_of_int k\<rceil> * k) < real_of_int (w + k)" by simp
  then show "\<lceil>real_of_int w / real_of_int k\<rceil> * k < w + k" by (simp only: of_int_less_iff)
qed

lemma strip_index:
  fixes pw px :: int
  assumes "0 < pw" "pw * int c \<le> px" "px < pw * int c + pw"
  shows "int c = px div pw"
proof -
  have "px = pw * int c + (px - pw * int c)" by simp
  moreover have "0 \<le> px - pw * int c" "px - pw * int c < pw" using assms by simp_all
  ultimately show ?thesis
    by (metis assms(1) div_pos_pos_trivial div_mult_self2 add.commute less_irrefl add.left_neutral)
qed

lemma strip_cover:
  fixes pw px :: int
  assumes "0 < pw" "0 \<le> px" "px < pw * int n"
  shows "nat (px div pw) < n \<and> pw * int (nat (px div pw)) \<le> px \<and> px < pw * int (nat (px div pw)) + pw"
proof -
  have d: "0 \<le> px div pw" using assms by (simp add: pos_imp_zdiv_nonneg_iff)
  have "px div pw < int n"
  proof (rule ccontr)
    assume "\<not> px div pw < int n"
    then have "int n \<le> px div pw" by simp
    then have "pw * int n \<le> pw * (px div pw)" using assms(1) by (simp add: mult_left_mono)
    also have "\<dots> \<le> px"
      using pos_mod_sign [OF assms(1), of px] mult_div_mod_eq [of pw px] by linarith
    finally show False using assms(3) by simp
  qed
  moreover have "pw * (px div pw) \<le> px"
    using pos_mod_sign [OF assms(1), of px] mult_div_mod_eq [of pw px] by linarith
  moreover have "px < pw * (px div pw) + pw"
    using pos_mod_bound [OF assms(1), of px] mult_div_mod_eq [of pw px] by linarith
  ultimately show ?thesis using d by simp
qed


lemma strip_upper:
  fixes pw px :: int
  assumes "0 < pw" "c < n" "px < pw * int c + pw"
  shows "px < pw * int n"
proof -
  have "int c + 1 \<le> int n" using assms(2) by simp
  then have "pw * (int c + 1) \<le> pw * int n" using assms(1) by (simp only: mult_left_mono less_imp_le)
  then show ?thesis using assms(3) by (simp add: distrib_left)
qed

lemma divide_screen_cells:
  assumes "parts \<noteq> 0"
  shows "\<exists>g. divide_screen w h parts = Inr g
           \<and> length g = nat (if parts > 3 then 2 else 1)
           \<and> (\<forall>r < length g. length (g ! r) = nat (parts div (if parts > 3 then 2 else 1))
                 \<and> (\<forall>c < length (g ! r).
                       g ! r ! c =
                         (\<lceil>real_of_int w / real_of_int parts * real_of_int (if parts > 3 then 2 else 1)\<rceil>,
                          \<lceil>real_of_int h / real_of_int (if parts > 3 then 2 else 1)\<rceil>,
                          \<lceil>real_of_int w / real_of_int parts * real_of_int (if parts > 3 then 2 else 1)\<rceil> * int c,
                          \<lceil>real_of_int h / real_of_int (if parts > 3 then 2 else 1)\<rceil> * int r)))"
  using assms by (simp add: divide_screen_def py_range_def Let_def)

lemma grid_disjoint:
  fixes g :: "cell list list"
  assumes pos: "0 < pw" "0 < ph"
    and g: "\<forall>r < length g. length (g ! r) = n \<and> (\<forall>c < n. g ! r ! c = (pw, ph, pw * int c, ph * int r))"
    and idx: "r < length g" "c < n" "r' < length g" "c' < n"
    and p: "in_cell (g ! r ! c) p" "in_cell (g ! r' ! c') p"
  shows "r = r' \<and> c = c'"
proof -
  obtain px py where pp: "p = (px, py)" by (cases p)
  have c1: "g ! r ! c = (pw, ph, pw * int c, ph * int r)" using g idx by simp
  have c2: "g ! r' ! c' = (pw, ph, pw * int c', ph * int r')" using g idx by simp
  from p c1 c2 pp have
    x: "pw * int c \<le> px" "px < pw * int c + pw" "pw * int c' \<le> px" "px < pw * int c' + pw" and
    y: "ph * int r \<le> py" "py < ph * int r + ph" "ph * int r' \<le> py" "py < ph * int r' + ph"
    by simp_all
  have "int c = int c'" using strip_index [OF pos(1) x(1,2)] strip_index [OF pos(1) x(3,4)] by simp
  moreover have "int r = int r'" using strip_index [OF pos(2) y(1,2)] strip_index [OF pos(2) y(3,4)] by simp
  ultimately show ?thesis by simp
qed

lemma grid_union:
  fixes g :: "cell list list"
  assumes pos: "0 < pw" "0 < ph"
    and g: "\<forall>r < length g. length (g ! r) = n \<and> (\<forall>c < n. g ! r ! c = (pw, ph, pw * int c, ph * int r))"
  shows "(\<exists>r < length g. \<exists>c < n. in_cell (g ! r ! c) (px, py))
           \<longleftrightarrow> 0 \<le> px \<and> px < pw * int n \<and> 0 \<le> py \<and> py < ph * int (length g)"
proof
  assume "\<exists>r < length g. \<exists>c < n. in_cell (g ! r ! c) (px, py)"
  then obtain r c where rc: "r < length g" "c < n" and i: "in_cell (g ! r ! c) (px, py)" by blast
  have "g ! r ! c = (pw, ph, pw * int c, ph * int r)" using g rc by simp
  with i have x: "pw * int c \<le> px" "px < pw * int c + pw" and y: "ph * int r \<le> py" "py < ph * int r + ph"
    by simp_all
  have "0 \<le> pw * int c" "0 \<le> ph * int r" using pos by simp_all
  then have "0 \<le> px" "0 \<le> py" using x(1) y(1) by linarith+
  moreover have "px < pw * int n" using strip_upper [OF pos(1) rc(2) x(2)] .
  moreover have "py < ph * int (length g)" using strip_upper [OF pos(2) rc(1) y(2)] .
  ultimately show "0 \<le> px \<and> px < pw * int n \<and> 0 \<le> py \<and> py < ph * int (length g)" by simp
next
  assume a: "0 \<le> px \<and> px < pw * int n \<and> 0 \<le> py \<and> py < ph * int (length g)"
  let ?c = "nat (px div pw)" and ?r = "nat (py div ph)"
  have cx: "?c < n \<and> pw * int ?c \<le> px \<and> px < pw * int ?c + pw"
    using strip_cover [OF pos(1), of px n] a by simp
  have ry: "?r < length g \<and> ph * int ?r \<le> py \<and> py < ph * int ?r + ph"
    using strip_cover [OF pos(2), of py "length g"] a by simp
  have "g ! ?r ! ?c = (pw, ph, pw * int ?c, ph * int ?r)" using g cx ry by simp
  then have "in_cell (g ! ?r ! ?c) (px, py)" using cx ry by simp
  then show "\<exists>r < length g. \<exists>c < n. in_cell (g ! r ! c) (px, py)" using cx ry by blast
qed

subsection \<open>The grid and its cells\<close>

text \<open>
  Claim C3.  For every screen width \<open>w\<close>, screen height \<open>h\<close> and \<open>parts\<close> in
  \<open>{2, 3, 4, 6}\<close>, the partitioner returns a grid with \<open>rows = 2 if parts > 3 else 1\<close>
  rows and \<open>parts / rows\<close> columns; every cell has width \<open>ceil(w / parts * rows)\<close> and
  height \<open>ceil(h / rows)\<close>, and cell \<open>(r, c)\<close> has its origin at
  \<open>(cell_width * c, cell_height * r)\<close>.  In particular the partition of a 1920 by 1080
  screen into 4 parts is the four cells of 960 by 540 at (0,0), (960,0), (0,540), (960,540).
\<close>

theorem divide_screen_grid:
  assumes "parts \<in> {2, 3, 4, 6}"
  shows "let rows = (if parts > 3 then 2 else 1 :: int);
             columns = parts div rows;
             cell_width = \<lceil>real_of_int w / real_of_int parts * real_of_int rows\<rceil>;
             cell_height = \<lceil>real_of_int h / real_of_int rows\<rceil>
         in (\<exists>g. divide_screen w h parts = Inr g
               \<and> int (length g) = rows
               \<and> (\<forall>r < length g. int (length (g ! r)) = columns
                     \<and> (\<forall>c < length (g ! r).
                           g ! r ! c = (cell_width, cell_height, cell_width * int c, cell_height * int r))))
            \<and> divide_screen 1920 1080 4 =
                Inr [[(960, 540, 0, 0), (960, 540, 960, 0)], [(960, 540, 0, 540), (960, 540, 960, 540)]]"
proof -
  have ex: "divide_screen 1920 1080 4 =
                Inr [[(960, 540, 0, 0), (960, 540, 960, 0)], [(960, 540, 0, 540), (960, 540, 960, 540)]]"
    by (simp add: divide_screen_def py_range_def upt_conv_Cons)
  from assms consider "parts = 2" | "parts = 3" | "parts = 4" | "parts = 6" by auto
  then have "let rows = (if parts > 3 then 2 else 1 :: int);
             columns = parts div rows;
             cell_width = \<lceil>real_of_int w / real_of_int parts * real_of_int rows\<rceil>;
             cell_height = \<lceil>real_of_int h / real_of_int rows\<rceil>
         in (\<exists>g. divide_screen w h parts = Inr g
               \<and> int (length g) = rows
               \<and> (\<forall>r < length g. int (length (g ! r)) = columns
                     \<and> (\<forall>c < length (g ! r).
                           g ! r ! c = (cell_width, cell_height, cell_width * int c, cell_height * int r))))"
    by cases (simp_all add: divide_screen_def py_range_def Let_def)
  with ex show ?thesis by (simp add: Let_def)
qed

theorem divide_screen_grid_witness:
  "(4::int) \<in> {2, 3, 4, 6} \<and> (\<exists>g. divide_screen 1920 1080 4 = Inr g \<and> length g = 2 \<and>
     g ! 1 ! 1 = (960, 540, 960, 540))"
  using divide_screen_grid [of 4 1920 1080]
  by (simp add: Let_def)

text \<open>
  Claim C4.  For every \<open>parts\<close> in \<open>{2, 3, 4, 6}\<close> and every positive screen width and
  height, the cells of the grid are pairwise non-overlapping and cover the screen area:
  two cells at different grid positions share no pixel, every pixel of the screen lies in
  a cell, and the cells together are exactly the rectangle of \<open>columns\<close> cell widths by
  \<open>rows\<close> cell heights at the origin, so there is no gap between them.  The rounding
  excess of a cell is below one pixel in each dimension: the cell width exceeds the exact
  share \<open>w / columns\<close> by less than 1, the cell height exceeds \<open>h / rows\<close> by less than
  1, so that the grid overshoots the screen by less than \<open>columns\<close> pixels to the right
  and less than \<open>rows\<close> pixels downwards.
\<close>

theorem divide_screen_tiles:
  assumes "parts \<in> {2, 3, 4, 6}" and "0 < w" and "0 < h"
  shows "let rows = (if parts > 3 then 2 else 1 :: int);
             columns = parts div rows;
             pw = \<lceil>real_of_int w / real_of_int parts * real_of_int rows\<rceil>;
             ph = \<lceil>real_of_int h / real_of_int rows\<rceil>
         in \<exists>g. divide_screen w h parts = Inr g
              \<and> int (length g) = rows \<and> (\<forall>r < length g. int (length (g ! r)) = columns)
              \<and> (\<forall>r < length g. \<forall>c < length (g ! r). \<forall>r' < length g. \<forall>c' < length (g ! r').
                    (r, c) \<noteq> (r', c') \<longrightarrow> (\<forall>p. \<not> (in_cell (g ! r ! c) p \<and> in_cell (g ! r' ! c') p)))
              \<and> (\<forall>px py. 0 \<le> px \<and> px < w \<and> 0 \<le> py \<and> py < h \<longrightarrow>
                    (\<exists>r < length g. \<exists>c < length (g ! r). in_cell (g ! r ! c) (px, py)))
              \<and> (\<forall>px py. (\<exists>r < length g. \<exists>c < length (g ! r). in_cell (g ! r ! c) (px, py))
                    \<longleftrightarrow> 0 \<le> px \<and> px < pw * columns \<and> 0 \<le> py \<and> py < ph * rows)
              \<and> w \<le> pw * columns \<and> pw * columns < w + columns
              \<and> h \<le> ph * rows \<and> ph * rows < h + rows
              \<and> real_of_int pw - real_of_int w / real_of_int columns < 1
              \<and> real_of_int ph - real_of_int h / real_of_int rows < 1"
proof -
  define rows :: int where "rows = (if parts > 3 then 2 else 1)"
  define columns where "columns = parts div rows"
  define pw where "pw = \<lceil>real_of_int w / real_of_int parts * real_of_int rows\<rceil>"
  define ph where "ph = \<lceil>real_of_int h / real_of_int rows\<rceil>"
  from assms(1) consider "parts = 2" | "parts = 3" | "parts = 4" | "parts = 6" by auto
  then have shape: "0 < rows \<and> 0 < columns \<and> pw = \<lceil>real_of_int w / real_of_int columns\<rceil>"
    by cases (simp_all add: rows_def columns_def pw_def)
  then have rpos: "0 < rows" and cpos: "0 < columns"
    and pwc: "pw = \<lceil>real_of_int w / real_of_int columns\<rceil>" by simp_all
  have wb: "w \<le> pw * columns" "pw * columns < w + columns"
    using ceil_bounds [OF cpos, of w] by (simp_all add: pwc)
  have hb: "h \<le> ph * rows" "ph * rows < h + rows"
    using ceil_bounds [OF rpos, of h] by (simp_all add: ph_def)
  have pos: "0 < pw" "0 < ph" using assms(2,3) rpos cpos by (simp_all add: pwc ph_def)
  from assms(1) have "parts \<noteq> 0" by auto
  from divide_screen_cells [OF this, of w h] obtain g where
    g: "divide_screen w h parts = Inr g" and lg: "length g = nat rows"
    and cells: "\<forall>r < length g. length (g ! r) = nat columns
                 \<and> (\<forall>c < length (g ! r). g ! r ! c = (pw, ph, pw * int c, ph * int r))"
    unfolding rows_def columns_def pw_def ph_def by blast
  have cells': "\<forall>r < length g. length (g ! r) = nat columns
                 \<and> (\<forall>c < nat columns. g ! r ! c = (pw, ph, pw * int c, ph * int r))"
    using cells by simp
  have len: "\<forall>r < length g. length (g ! r) = nat columns" using cells by simp
  have disj: "\<forall>r < length g. \<forall>c < length (g ! r). \<forall>r' < length g. \<forall>c' < length (g ! r').
                (r, c) \<noteq> (r', c') \<longrightarrow> (\<forall>p. \<not> (in_cell (g ! r ! c) p \<and> in_cell (g ! r' ! c') p))"
  proof (intro allI impI notI)
    fix r c r' c' p
    assume a: "r < length g" "c < length (g ! r)" "r' < length g" "c' < length (g ! r')"
      "(r, c) \<noteq> (r', c')" "in_cell (g ! r ! c) p \<and> in_cell (g ! r' ! c') p"
    have "c < nat columns" "c' < nat columns" using a(1-4) len by simp_all
    with grid_disjoint [OF pos cells' a(1) _ a(3), of c c' p] a(6) have "r = r' \<and> c = c'" by blast
    with a(5) show False by simp
  qed
  have un: "\<forall>px py. (\<exists>r < length g. \<exists>c < length (g ! r). in_cell (g ! r ! c) (px, py))
              \<longleftrightarrow> 0 \<le> px \<and> px < pw * columns \<and> 0 \<le> py \<and> py < ph * rows"
  proof (intro allI)
    fix px py
    have "(\<exists>r < length g. \<exists>c < length (g ! r). in_cell (g ! r ! c) (px, py))
            \<longleftrightarrow> (\<exists>r < length g. \<exists>c < nat columns. in_cell (g ! r ! c) (px, py))"
      using len by (simp cong: conj_cong)
    also have "\<dots> \<longleftrightarrow> 0 \<le> px \<and> px < pw * int (nat columns) \<and> 0 \<le> py \<and> py < ph * int (length g)"
      by (rule grid_union [OF pos cells'])
    finally show "(\<exists>r < length g. \<exists>c < length (g ! r). in_cell (g ! r ! c) (px, py))
              \<longleftrightarrow> 0 \<le> px \<and> px < pw * columns \<and> 0 \<le> py \<and> py < ph * rows"
      using cpos rpos lg by simp
  qed
  have cov: "\<forall>px py. 0 \<le> px \<and> px < w \<and> 0 \<le> py \<and> py < h \<longrightarrow>
               (\<exists>r < length g. \<exists>c < length (g ! r). in_cell (g ! r ! c) (px, py))"
  proof (intro allI impI)
    fix px py
    assume "0 \<le> px \<and> px < w \<and> 0 \<le> py \<and> py < h"
    then have "0 \<le> px \<and> px < pw * columns \<and> 0 \<le> py \<and> py < ph * rows"
      using wb(1) hb(1) by linarith
    then show "\<exists>r < length g. \<exists>c < length (g ! r). in_cell (g ! r ! c) (px, py)"
      using un by blast
  qed
  have ex1: "real_of_int pw - real_of_int w / real_of_int columns < 1"
    using ceiling_correct [of "real_of_int w / real_of_int columns"] by (simp add: pwc)
  have ex2: "real_of_int ph - real_of_int h / real_of_int rows < 1"
    using ceiling_correct [of "real_of_int h / real_of_int rows"] by (simp add: ph_def)
  have "divide_screen w h parts = Inr g
      \<and> int (length g) = rows \<and> (\<forall>r < length g. int (length (g ! r)) = columns)
      \<and> (\<forall>r < length g. \<forall>c < length (g ! r). \<forall>r' < length g. \<forall>c' < length (g ! r').
             (r, c) \<noteq> (r', c') \<longrightarrow> (\<forall>p. \<not> (in_cell (g ! r ! c) p \<and> in_cell (g ! r' ! c') p)))
      \<and> (\<forall>px py. 0 \<le> px \<and> px < w \<and> 0 \<le> py \<and> py < h \<longrightarrow>
             (\<exists>r < length g. \<exists>c < length (g ! r). in_cell (g ! r ! c) (px, py)))
      \<and> (\<forall>px py. (\<exists>r < length g. \<exists>c < length (g ! r). in_cell (g ! r ! c) (px, py))
             \<longleftrightarrow> 0 \<le> px \<and> px < pw * columns \<and> 0 \<le> py \<and> py < ph * rows)
      \<and> w \<le> pw * columns \<and> pw * columns < w + columns
      \<and> h \<le> ph * rows \<and> ph * rows < h + rows
      \<and> real_of_int pw - real_of_int w / real_of_int columns < 1
      \<and> real_of_int ph - real_of_int h / real_of_int rows < 1"
  proof (intro conjI)
    show "int (length g) = rows" using lg rpos by simp
    show "\<forall>r < length g. int (length (g ! r)) = columns" using len cpos by simp
  qed (rule g disj cov un wb hb ex1 ex2)+
  then show ?thesis
    unfolding Let_def columns_def pw_def ph_def rows_def
    by (rule exI [where x = g])
qed

theorem divide_screen_tiles_witness:
  "(3::int) \<in> {2, 3, 4, 6} \<and> (0::int) < 1921 \<and> (0::int) < 1080 \<and>
   (\<exists>g. divide_screen 1921 1080 3 = Inr g \<and> int (length g) = 1 \<and>
        (\<exists>r < length g. \<exists>c < length (g ! r). in_cell (g ! r ! c) (1920, 1079)))"
proof -
  have h: "(3::int) \<in> {2, 3, 4, 6}" "(0::int) < 1921" "(0::int) < 1080" by simp_all
  from divide_screen_tiles [OF h] obtain g where
    g: "divide_screen 1921 1080 3 = Inr g" "int (length g) = 1"
    and cov: "\<forall>px py. 0 \<le> px \<and> px < 1921 \<and> 0 \<le> py \<and> py < 1080 \<longrightarrow>
               (\<exists>r < length g. \<exists>c < length (g ! r). in_cell (g ! r ! c) (px, py))"
    unfolding Let_def by auto
  from cov have "\<exists>r < length g. \<exists>c < length (g ! r). in_cell (g ! r ! c) (1920, 1079)"
    by simp
  with g h show ?thesis by blast
qed

text \<open>
  Claim C9, as the code has it.  The spec sentence asks for every \<open>parts\<close> outside
  \<open>{2, 3, 4, 6}\<close> to be rejected.  \<^verbatim>\<open>divide_screen\<close> has no check of \<open>parts\<close>: for
  \<open>parts = 5\<close> it returns a grid of two rows of two cells.
\<close>

theorem divide_screen_five_counterexample:
  "divide_screen 1920 1080 5 =
     Inr [[(768, 540, 0, 0), (768, 540, 768, 0)], [(768, 540, 0, 540), (768, 540, 768, 540)]]"
  by (simp add: divide_screen_def py_range_def upt_conv_Cons)

text \<open>
  Claim C9, amended.  The partitioner is a function of the screen size and \<open>parts\<close>
  alone (a HOL function: the same arguments give the same result, and there is no state
  to change).  It rejects exactly one value, \<open>parts = 0\<close>, where the division raises;
  for every other \<open>parts\<close>, inside \<open>{2, 3, 4, 6}\<close> or not, it returns a grid of
  \<open>2 if parts > 3 else 1\<close> rows with \<open>parts // rows\<close> cells each (none when that is
  negative).  Only the callers, which pass the literals 2, 3, 4 and 6, keep \<open>parts\<close> in
  the supported set.
\<close>

theorem divide_screen_rejects_only_zero:
  "(divide_screen w h parts = Inl ZeroDivisionError \<longleftrightarrow> parts = 0)
   \<and> (\<forall>e. divide_screen w h parts = Inl e \<longrightarrow> e = ZeroDivisionError)
   \<and> (parts \<noteq> 0 \<longrightarrow>
        (\<exists>g. divide_screen w h parts = Inr g
           \<and> length g = nat (if parts > 3 then 2 else 1)
           \<and> (\<forall>r < length g. length (g ! r) = nat (parts div (if parts > 3 then 2 else 1)))))"
proof (intro conjI allI impI)
  show "divide_screen w h parts = Inl ZeroDivisionError \<longleftrightarrow> parts = 0"
    by (simp add: divide_screen_def Let_def)
next
  fix e assume "divide_screen w h parts = Inl e"
  then show "e = ZeroDivisionError"
    by (simp add: divide_screen_def Let_def split: if_splits)
next
  assume "parts \<noteq> 0"
  from divide_screen_cells [OF this, of w h]
  show "\<exists>g. divide_screen w h parts = Inr g
           \<and> length g = nat (if parts > 3 then 2 else 1)
           \<and> (\<forall>r < length g. length (g ! r) = nat (parts div (if parts > 3 then 2 else 1)))"
    by blast
qed

theorem divide_screen_rejects_only_zero_witness:
  "divide_screen 1920 1080 0 = Inl ZeroDivisionError \<and> (7::int) \<noteq> 0 \<and>
   (\<exists>g. divide_screen 1920 1080 7 = Inr g \<and> length g = 2 \<and> length (g ! 1) = 3)"
proof -
  from divide_screen_rejects_only_zero [of 1920 1080 0]
  have z: "divide_screen 1920 1080 0 = Inl ZeroDivisionError" by simp
  from divide_screen_rejects_only_zero [of 1920 1080 7]
  obtain g where "divide_screen 1920 1080 7 = Inr g" "length g = 2"
    "\<forall>r < length g. length (g ! r) = 3" by auto
  then have "divide_screen 1920 1080 7 = Inr g \<and> length g = 2 \<and> length (g ! 1) = 3" by simp
  then have "\<exists>g. divide_screen 1920 1080 7 = Inr g \<and> length g = 2 \<and> length (g ! 1) = 3" ..
  with z show ?thesis by simp
qed

section \<open>Properties of the display command gateway\<close>

lemma del_monitor_result:
  "del_monitor run name = Inr (PyBool (run (del_monitor_argv name) = 0))"
  by (simp add: del_monitor_def check_call_def)

lemma set_monitor_result:
  "set_monitor run name width height offset_x offset_y device =
     Inr (if run (set_monitor_argv name width height offset_x offset_y device) = 0
          then PyNone else PyBool False)"
  by (simp add: set_monitor_def check_call_def)

text \<open>
  Claim C7.  Both gateway operations are to return a boolean: false when the tool exits
  with a nonzero status, a true success indication otherwise.  \<^verbatim>\<open>del_monitor\<close> does so.
  \<^verbatim>\<open>set_monitor\<close> returns \<^verbatim>\<open>False\<close> on a nonzero status, but on success (exit status 0)
  it returns \<^verbatim>\<open>None\<close>, which is not a boolean and is falsy; the theorem evaluates both
  methods there.
\<close>

theorem set_monitor_success_returns_None:
  "set_monitor (\<lambda>argv. 0) ''left_half'' 960 1080 0 0 ''none'' = Inr PyNone
   \<and> truthy PyNone = False
   \<and> set_monitor (\<lambda>argv. 1) ''left_half'' 960 1080 0 0 ''none'' = Inr (PyBool False)
   \<and> del_monitor (\<lambda>argv. 0) ''left_half'' = Inr (PyBool True)
   \<and> del_monitor (\<lambda>argv. 1) ''left_half'' = Inr (PyBool False)"
  by (simp add: set_monitor_def del_monitor_def check_call_def)


section \<open>Properties of the region selector\<close>

lemma run_events_closed: "\<not> visible s \<Longrightarrow> run_events evs s = (s, [])"
  by (induction evs) simp_all

lemma release_calls:
  "onSnippingCompleted s = Some cb \<Longrightarrow>
   snd (handle_event (MouseRelease []) s) =
     [Completed cb (min (fst (begin_point s)) (fst (end_point s)), min (snd (begin_point s)) (snd (end_point s)))
                   (max (fst (begin_point s)) (fst (end_point s)), max (snd (begin_point s)) (snd (end_point s)))]"
  by (simp add: mouseReleaseEvent_def repaint_def paintEvent_def Let_def)

lemma release_closes: "\<not> visible (fst (handle_event (MouseRelease queued) s))"
  by (simp add: mouseReleaseEvent_def Let_def split: prod.splits)

lemma drag_run:
  assumes "visible s" "is_snipping s" "onSnippingCompleted s = Some cb"
    and "filter (\<lambda>e. e \<noteq> Paint) evs = map MouseMove ps @ [MouseRelease []]"
  shows "snd (run_events evs s) =
     [Completed cb (min (fst (begin_point s)) (fst (last (end_point s # ps))),
                    min (snd (begin_point s)) (snd (last (end_point s # ps))))
                   (max (fst (begin_point s)) (fst (last (end_point s # ps))),
                    max (snd (begin_point s)) (snd (last (end_point s # ps))))]"
  using assms
proof (induction evs arbitrary: s ps)
  case Nil
  then show ?case by simp
next
  case (Cons ev evs)
  show ?case
  proof (cases ev)
    case Paint
    with Cons.prems have f: "filter (\<lambda>e. e \<noteq> Paint) evs = map MouseMove ps @ [MouseRelease []]" by simp
    have "run_events (ev # evs) s = run_events evs s"
      using Paint Cons.prems(2) by (simp add: paintEvent_def)
    with Cons.IH [OF Cons.prems(1-3) f] show ?thesis by simp
  next
    case (MouseMove p)
    with Cons.prems(4) obtain ps' where ps: "ps = p # ps'"
      and f: "filter (\<lambda>e. e \<noteq> Paint) evs = map MouseMove ps' @ [MouseRelease []]"
      by (cases ps) auto
    let ?s = "mouseMoveEvent p s"
    have s: "visible ?s" "is_snipping ?s" "onSnippingCompleted ?s = Some cb"
      "begin_point ?s = begin_point s" "end_point ?s = p"
      using Cons.prems(1-3) by (simp_all add: mouseMoveEvent_def)
    have "run_events (ev # evs) s = run_events evs ?s"
      using MouseMove Cons.prems(1) by (simp split: prod.splits)
    with Cons.IH [OF s(1-3) f] show ?thesis by (simp add: s ps)
  next
    case (MouseRelease queued)
    with Cons.prems(4) have ps: "ps = []" and q: "queued = []" by (cases ps; auto)+
    have "run_events (ev # evs) s =
            (fst (handle_event (MouseRelease []) s), snd (handle_event (MouseRelease []) s))"
      using MouseRelease q Cons.prems(1) run_events_closed [OF release_closes, of evs "[]" s]
      by (cases "handle_event (MouseRelease []) s") (simp del: handle_event.simps)
    then show ?thesis using release_calls [OF Cons.prems(3)]
      by (simp add: ps del: handle_event.simps run_events.simps)
  next
    case (MousePress p)
    with Cons.prems(4) show ?thesis by (cases ps) auto
  next
    case (KeyPress k queued)
    with Cons.prems(4) show ?thesis by (cases ps) auto
  qed
qed

lemma press_drag_run:
  assumes "visible s" "is_snipping s" "onSnippingCompleted s = Some cb"
    and "filter (\<lambda>e. e \<noteq> Paint) evs = MousePress p0 # map MouseMove ps @ [MouseRelease []]"
  shows "snd (run_events evs s) =
     [Completed cb (min (fst p0) (fst (last (p0 # ps))), min (snd p0) (snd (last (p0 # ps))))
                   (max (fst p0) (fst (last (p0 # ps))), max (snd p0) (snd (last (p0 # ps))))]"
  using assms
proof (induction evs)
  case Nil
  then show ?case by simp
next
  case (Cons ev evs)
  show ?case
  proof (cases "ev = Paint")
    case True
    with Cons.prems have f: "filter (\<lambda>e. e \<noteq> Paint) evs = MousePress p0 # map MouseMove ps @ [MouseRelease []]" by simp
    have "run_events (ev # evs) s = run_events evs s"
      using True Cons.prems(2) by (simp add: paintEvent_def)
    with Cons.IH [OF Cons.prems(1-3) f] show ?thesis by simp
  next
    case False
    with Cons.prems(4) have ev: "ev = MousePress p0"
      and f: "filter (\<lambda>e. e \<noteq> Paint) evs = map MouseMove ps @ [MouseRelease []]" by simp_all
    let ?s = "mousePressEvent p0 s"
    have s: "visible ?s" "is_snipping ?s" "onSnippingCompleted ?s = Some cb"
      "begin_point ?s = p0" "end_point ?s = p0"
      using Cons.prems(1-3) by (simp_all add: mousePressEvent_def)
    have "run_events (ev # evs) s = run_events evs ?s"
      using ev Cons.prems(1) by (simp split: prod.splits)
    with drag_run [OF s(1-3) f] show ?thesis by (simp add: s)
  qed
qed

lemma capture_outcomes:
  fixes s :: "('a, 'b) SnippingWidget"
  shows "visible s \<and> onSnippingCompleted s = Some cb \<and> onSnippingCancelled s = Some cc \<longrightarrow>
           capture_outcome cb cc (handle_event ev s)"
    and "visible s \<and> onSnippingCompleted s = Some cb \<and> onSnippingCancelled s = Some cc \<longrightarrow>
           capture_outcome cb cc (run_events evs s)"
proof (induction ev s and evs s rule: handle_event_run_events.induct)
  case (1 pos s)
  then show ?case by (simp add: capture_outcome_def mousePressEvent_def)
next
  case (2 pos s)
  then show ?case by (simp add: capture_outcome_def mouseMoveEvent_def)
next
  case (3 queued s)
  show ?case
  proof
    assume pre: "visible s \<and> onSnippingCompleted s = Some cb \<and> onSnippingCancelled s = Some cc"
    let ?s3 = "(repaint (s\<lparr>is_snipping := False, override_cursors := override_cursors s - 1\<rparr>))
                 \<lparr>parent_state := WindowActive\<rparr>"
    have "visible ?s3 \<and> onSnippingCompleted ?s3 = Some cb \<and> onSnippingCancelled ?s3 = Some cc"
      using pre by (simp add: repaint_def paintEvent_def)
    with 3 have "capture_outcome cb cc (run_events queued ?s3)" by blast
    then show "capture_outcome cb cc (handle_event (MouseRelease queued) s)"
      by (cases "run_events queued ?s3")
         (auto simp: capture_outcome_def mouseReleaseEvent_def Let_def)
  qed
next
  case (4 key queued s)
  show ?case
  proof
    assume pre: "visible s \<and> onSnippingCompleted s = Some cb \<and> onSnippingCancelled s = Some cc"
    let ?s3 = "(repaint (s\<lparr>override_cursors := override_cursors s - 1\<rparr>))
                 \<lparr>parent_state := WindowActive\<rparr>"
    have "visible ?s3 \<and> onSnippingCompleted ?s3 = Some cb \<and> onSnippingCancelled ?s3 = Some cc"
      using pre by (simp add: repaint_def paintEvent_def)
    with 4 have "capture_outcome cb cc (run_events queued ?s3)" by blast
    then show "capture_outcome cb cc (handle_event (KeyPress key queued) s)"
      using pre
      by (cases "run_events queued ?s3")
         (auto simp: capture_outcome_def keyPressEvent_def Let_def)
  qed
next
  case (5 s)
  then show ?case by (simp add: capture_outcome_def paintEvent_def)
next
  case (6 s)
  then show ?case by (simp add: capture_outcome_def)
next
  case (7 ev evs s)
  show ?case
  proof
    assume pre: "visible s \<and> onSnippingCompleted s = Some cb \<and> onSnippingCancelled s = Some cc"
    obtain s1 c1 where h: "handle_event ev s = (s1, c1)" by (cases "handle_event ev s")
    from 7(1) pre h have o1: "capture_outcome cb cc (s1, c1)" by simp
    show "capture_outcome cb cc (run_events (ev # evs) s)"
    proof (cases "visible s1")
      case True
      with o1 have p1: "visible s1 \<and> onSnippingCompleted s1 = Some cb \<and> onSnippingCancelled s1 = Some cc"
        and c1: "c1 = []" by (auto simp: capture_outcome_def)
      from 7(2) [of s1 c1] pre h p1 have "capture_outcome cb cc (run_events evs s1)" by simp
      then show ?thesis using pre h c1 by (cases "run_events evs s1") simp
    next
      case False
      then have "run_events evs s1 = (s1, [])" by (rule run_events_closed)
      then show ?thesis using pre h o1 by simp
    qed
  qed
qed

text \<open>
  Claim C5.  After \<^verbatim>\<open>start\<close> with a completion callback, every event sequence of the
  form down at \<open>p0\<close>, move to \<open>p1\<close>, ..., move to \<open>pN\<close>, up (with any paint events
  the moves scheduled in between, and nothing queued behind the up) invokes the completion
  callback exactly once and nothing else: the invocation list is the single call with the
  top-left corner at the componentwise minimum of \<open>p0\<close> and the final position and the
  bottom-right corner at the componentwise maximum.  The drag in the opposite direction,
  from the final position back to \<open>p0\<close>, reports the same rectangle.
\<close>

theorem drag_reports_normalized_rectangle:
  assumes "filter (\<lambda>e. e \<noteq> Paint) evs = MousePress p0 # map MouseMove ps @ [MouseRelease []]"
    and "q = last (p0 # ps)"
  shows "snd (run_events evs (start (Some cb) cancel s0)) =
           [Completed cb (min (fst p0) (fst q), min (snd p0) (snd q))
                         (max (fst p0) (fst q), max (snd p0) (snd q))]
         \<and> (\<forall>evs' ps'. filter (\<lambda>e. e \<noteq> Paint) evs' = MousePress q # map MouseMove ps' @ [MouseRelease []]
                \<and> last (q # ps') = p0 \<longrightarrow>
              snd (run_events evs' (start (Some cb) cancel s0)) =
              snd (run_events evs (start (Some cb) cancel s0)))"
proof -
  let ?s = "start (Some cb) cancel s0"
  have s: "visible ?s" "is_snipping ?s" "onSnippingCompleted ?s = Some cb"
    by (simp_all add: start_def)
  have a: "snd (run_events evs ?s) =
           [Completed cb (min (fst p0) (fst q), min (snd p0) (snd q))
                         (max (fst p0) (fst q), max (snd p0) (snd q))]"
    using press_drag_run [OF s assms(1)] assms(2) by simp
  have b: "snd (run_events evs' ?s) = snd (run_events evs ?s)"
    if "filter (\<lambda>e. e \<noteq> Paint) evs' = MousePress q # map MouseMove ps' @ [MouseRelease []]"
      and "last (q # ps') = p0" for evs' ps'
    using press_drag_run [OF s that(1)] that(2) a by (simp add: min.commute max.commute)
  from a b show ?thesis by blast
qed

theorem drag_reports_normalized_rectangle_witness:
  "filter (\<lambda>e. e \<noteq> Paint)
      [MousePress (300, 400), Paint, MouseMove (200, 100), Paint, MouseMove (100, 200), MouseRelease []] =
     MousePress (300, 400) # map MouseMove [(200, 100), (100, 200)] @ [MouseRelease []]
   \<and> (100, 200) = last ((300, 400) # [(200, 100), (100, 200 :: int)] :: QPoint list)
   \<and> snd (run_events
        [MousePress (300, 400), Paint, MouseMove (200, 100), Paint, MouseMove (100, 200), MouseRelease []]
        (start (Some ()) (None :: unit option) SnippingWidget_init)) =
       [Completed () (100, 200) (300, 400)]"
proof -
  have f: "filter (\<lambda>e. e \<noteq> Paint)
      [MousePress (300, 400), Paint, MouseMove (200, 100), Paint, MouseMove (100, 200), MouseRelease []] =
     MousePress (300, 400) # map MouseMove [(200, 100), (100, 200)] @ [MouseRelease []]" by simp
  have q: "(100, 200) = last ((300, 400) # [(200, 100), (100, 200 :: int)] :: QPoint list)" by simp
  from drag_reports_normalized_rectangle
         [OF f q, of "()" "None :: unit option" "SnippingWidget_init :: (unit, unit) SnippingWidget"]
  have "snd (run_events
        [MousePress (300, 400), Paint, MouseMove (200, 100), Paint, MouseMove (100, 200), MouseRelease []]
        (start (Some ()) (None :: unit option) SnippingWidget_init)) =
       [Completed () (min (fst (300 :: int, 400 :: int)) (fst (100 :: int, 200 :: int)),
                      min (snd (300 :: int, 400 :: int)) (snd (100 :: int, 200 :: int)))
                     (max (fst (300 :: int, 400 :: int)) (fst (100 :: int, 200 :: int)),
                      max (snd (300 :: int, 400 :: int)) (snd (100 :: int, 200 :: int)))]"
    by (rule conjunct1)
  also have "\<dots> = [Completed () (100, 200) (300, 400)]" by simp
  finally show ?thesis using f q by (intro conjI)
qed

text \<open>
  Claim C6.  After \<^verbatim>\<open>start\<close>, exactly one of the two callbacks is to fire before the
  capture ends, never both, and an Escape is to fire the cancellation callback and never
  the completion callback, leaving the selector idle.  \<^verbatim>\<open>keyPressEvent\<close> clears the
  completion callback so that none can follow, but it does so after
  \<^verbatim>\<open>processEvents()\<close> has returned: when the mouse release is already queued behind the
  Escape (press at (10, 20), move to (30, 50), Escape and release in quick succession),
  the release is handled inside \<^verbatim>\<open>processEvents()\<close> and calls the completion callback,
  and then the Escape handler calls the cancellation callback.  Both fire.  The second
  evaluation is the selector after an Escape with nothing queued: it is closed with both
  callbacks cleared, but \<^verbatim>\<open>is_snipping\<close> is still set and the two points are those
  of the cancelled drag, where \<^verbatim>\<open>mouseReleaseEvent\<close> resets the three.
\<close>

theorem escape_with_queued_release_calls_both:
  "snd (run_events
          [MousePress (10, 20), MouseMove (30, 50), KeyPress Key_Escape [MouseRelease []]]
          (start (Some ()) (Some ()) (SnippingWidget_init :: (unit, unit) SnippingWidget))) =
     [Completed () (10, 20) (30, 50), Cancelled ()]
   \<and> fst (run_events
          [MousePress (10, 20), MouseMove (30, 50), KeyPress Key_Escape []]
          (start (Some ()) (Some ()) (SnippingWidget_init :: (unit, unit) SnippingWidget))) =
     \<lparr>is_snipping = True, begin_point = (10, 20), end_point = (30, 50),
      onSnippingCompleted = None, onSnippingCancelled = None,
      visible = False, parent_state = WindowActive, override_cursors = 0\<rparr>"
  by (simp add: start_def SnippingWidget_init_def mousePressEvent_def mouseMoveEvent_def
        keyPressEvent_def mouseReleaseEvent_def repaint_def paintEvent_def QPoint0_def Let_def)

section \<open>Properties of the toggle state and the display manager\<close>

lemma set_state_unchanged:
  "enabled_displays m area = x \<Longrightarrow> set_state m area x = (False, m)"
  by (simp add: set_state_def check_invalid_state_def)

lemma set_state_flag:
  "enabled_displays (snd (set_state m area x)) area = x"
  by (simp add: set_state_def check_invalid_state_def setChecked_def destroy_overlay_def Let_def
           split: option.splits)

lemma select_cell_unchanged:
  "enabled_displays m area = x \<Longrightarrow> select_cell area parts r c m x = Inr m"
  by (simp add: select_cell_def set_state_unchanged)

lemmas handler_defs =
  select_left_half_def select_right_half_def
  select_left_third_def select_center_third_def select_right_third_def
  select_top_left_quarter_def select_top_right_quarter_def
  select_bottom_left_quarter_def select_bottom_right_quarter_def
  select_top_left_sixth_def select_top_center_sixth_def select_top_right_sixth_def
  select_bottom_left_sixth_def select_bottom_center_sixth_def select_bottom_right_sixth_def

lemma toggled_unchanged:
  assumes "enabled_displays m area = x"
  shows "toggled area m x = Inr m"
  using assms
  by (cases area)
     (simp_all add: select_region_def select_full_screen_def set_state_unchanged
        select_cell_unchanged handler_defs)

text \<open>
  Claim C1.  For every area and every boolean \<open>x\<close>: when the stored flag of the area
  already equals \<open>x\<close>, \<^verbatim>\<open>set_state\<close> returns \<^verbatim>\<open>False\<close> and the state is the one it was
  given, and the area's toggle handler, which starts with that \<^verbatim>\<open>set_state\<close>, returns
  the same state too: flags, buttons, overlays and the record of gateway calls are all
  untouched.  In particular, after any first call \<^verbatim>\<open>set_state(area, x)\<close> a second call
  with the same \<open>x\<close> reports no change and has no effect.
\<close>

theorem set_state_same_value_is_noop:
  "(enabled_displays m area = x \<longrightarrow> set_state m area x = (False, m) \<and> toggled area m x = Inr m)
   \<and> (let m1 = snd (set_state m area x)
      in set_state m1 area x = (False, m1) \<and> toggled area m1 x = Inr m1)"
proof -
  let ?m1 = "snd (set_state m area x)"
  have flag: "enabled_displays ?m1 area = x" by (rule set_state_flag)
  have "set_state ?m1 area x = (False, ?m1)" using flag by (rule set_state_unchanged)
  moreover have "toggled area ?m1 x = Inr ?m1" using flag by (rule toggled_unchanged)
  ultimately show ?thesis
    by (simp add: Let_def set_state_unchanged toggled_unchanged)
qed

theorem set_state_same_value_is_noop_witness:
  "enabled_displays
     \<lparr>screen_dimensions = (1920, 1080), enabled_displays = (\<lambda>area. False), rectangles = Map.empty,
      windows = [], buttons = (\<lambda>area. False), xrandr_calls = [],
      region_selector = SnippingWidget_init\<rparr>
     Left_half = False
   \<and> toggled Left_half
        \<lparr>screen_dimensions = (1920, 1080), enabled_displays = (\<lambda>area. False), rectangles = Map.empty,
         windows = [], buttons = (\<lambda>area. False), xrandr_calls = [],
         region_selector = SnippingWidget_init\<rparr>
        False =
      Inr \<lparr>screen_dimensions = (1920, 1080), enabled_displays = (\<lambda>area. False), rectangles = Map.empty,
           windows = [], buttons = (\<lambda>area. False), xrandr_calls = [],
           region_selector = SnippingWidget_init\<rparr>"
  using set_state_same_value_is_noop
    [of "\<lparr>screen_dimensions = (1920, 1080), enabled_displays = (\<lambda>area. False), rectangles = Map.empty,
         windows = [], buttons = (\<lambda>area. False), xrandr_calls = [],
         region_selector = SnippingWidget_init\<rparr>"
        Left_half False]
  by simp

lemma set_state_effect:
  assumes "set_state m area x = (b, m1)"
  shows "enabled_displays m1 = (enabled_displays m)(area := x)"
    and "\<forall>a. a \<noteq> area \<longrightarrow> rectangles m1 a = rectangles m a"
    and "region_selector m1 = region_selector m"
    and "xrandr_calls m1 = xrandr_calls m"
    and "screen_dimensions m1 = screen_dimensions m"
    and "b \<longleftrightarrow> enabled_displays m area \<noteq> x"
    and "enabled_displays m area = x \<longrightarrow> m1 = m"
    and "enabled_displays m area \<noteq> x \<and> x \<longrightarrow>
           rectangles m1 area = rectangles m area \<and> windows m1 = windows m"
    and "enabled_displays m area \<noteq> x \<and> \<not> x \<longrightarrow>
           rectangles m1 area = None
           \<and> windows m1 = (case rectangles m area of
                              None \<Rightarrow> windows m
                            | Some old \<Rightarrow> remove1 (area, old) (windows m))"
  using assms
  by (auto simp: set_state_def check_invalid_state_def setChecked_def destroy_overlay_def
                 Let_def fun_eq_iff
           split: if_splits option.splits)

lemma index_cell_divide_screen:
  assumes "parts \<noteq> 0" "r < nat (if parts > 3 then 2 else 1)"
    "c < nat (parts div (if parts > 3 then 2 else 1))"
  shows "\<exists>g cell. divide_screen w h parts = Inr g \<and> index_cell g r c = Inr cell"
proof -
  from divide_screen_cells [OF assms(1), of w h] obtain g where
    g: "divide_screen w h parts = Inr g" "length g = nat (if parts > 3 then 2 else 1)"
    "\<forall>r < length g. length (g ! r) = nat (parts div (if parts > 3 then 2 else 1))"
    by blast
  then have "index_cell g r c = Inr (g ! r ! c)" using assms(2,3) by (simp add: index_cell_def)
  with g(1) show ?thesis by blast
qed

text \<open>
  What a toggle handler does to the flags, the dict and the windows, for an area whose
  flag agrees with the dict.
\<close>

lemma select_cell_effect:
  assumes "parts \<noteq> 0" "r < nat (if parts > 3 then 2 else 1)"
    "c < nat (parts div (if parts > 3 then 2 else 1))"
    and "enabled_displays m area \<longleftrightarrow> rectangles m area \<noteq> None"
  shows "\<exists>m'. select_cell area parts r c m x = Inr m'
           \<and> enabled_displays m' = (enabled_displays m)(area := x)
           \<and> (\<forall>a. a \<noteq> area \<longrightarrow> rectangles m' a = rectangles m a)
           \<and> region_selector m' = region_selector m
           \<and> (enabled_displays m area = x \<longrightarrow> m' = m)
           \<and> (enabled_displays m area \<noteq> x \<and> x \<longrightarrow>
                (\<exists>ow. rectangles m' area = Some ow \<and> windows m' = windows m @ [(area, ow)]))
           \<and> (enabled_displays m area \<noteq> x \<and> \<not> x \<longrightarrow>
                rectangles m' area = None
                \<and> (\<exists>old. rectangles m area = Some old \<and> windows m' = remove1 (area, old) (windows m)))"
proof (cases "enabled_displays m area = x")
  case True
  then show ?thesis by (auto simp: select_cell_unchanged fun_eq_iff)
next
  case False
  obtain b m1 where bm: "set_state m area x = (b, m1)" by (cases "set_state m area x")
  with False set_state_effect(6) [OF bm] have m1: "set_state m area x = (True, m1)" by simp
  note e = set_state_effect [OF m1]
  show ?thesis
  proof (cases x)
    case True
    with False assms(4) have none: "rectangles m area = None" by auto
    from index_cell_divide_screen [OF assms(1-3), of "fst (screen_dimensions m1)" "snd (screen_dimensions m1)"]
    obtain g pw ph cx cy where
      "divide_screen (fst (screen_dimensions m1)) (snd (screen_dimensions m1)) parts = Inr g"
      "index_cell g r c = Inr (pw, ph, cx, cy)"
      by (metis prod_cases4)
    then have "select_cell area parts r c m x =
                 Inr (draw_outline (Xrandr_set_monitor (area_name area) pw ph cx cy m1) area pw ph cx cy)"
      using m1 True by (simp add: select_cell_def)
    moreover have "rectangles m1 area = None" "windows m1 = windows m"
      using e(8) False True none by simp_all
    ultimately show ?thesis using e(1,2,3) True False
      by (simp add: draw_outline_def store_overlay_def Xrandr_set_monitor_def dom_def)
  next
    case False
    with \<open>enabled_displays m area \<noteq> x\<close> assms(4) obtain old where old: "rectangles m area = Some old"
      by auto
    from False have "select_cell area parts r c m x = Inr (Xrandr_del_monitor (area_name area) m1)"
      using m1 by (simp add: select_cell_def)
    then show ?thesis using e(1,2,3,9) False \<open>enabled_displays m area \<noteq> x\<close> old
      by (simp add: Xrandr_del_monitor_def)
  qed
qed

lemma select_full_screen_effect:
  assumes "enabled_displays m Full_screen \<longleftrightarrow> rectangles m Full_screen \<noteq> None"
  shows "\<exists>m'. select_full_screen m x = Inr m'
           \<and> enabled_displays m' = (enabled_displays m)(Full_screen := x)
           \<and> (\<forall>a. a \<noteq> Full_screen \<longrightarrow> rectangles m' a = rectangles m a)
           \<and> region_selector m' = region_selector m
           \<and> (enabled_displays m Full_screen = x \<longrightarrow> m' = m)
           \<and> (enabled_displays m Full_screen \<noteq> x \<and> x \<longrightarrow>
                (\<exists>ow. rectangles m' Full_screen = Some ow \<and> windows m' = windows m @ [(Full_screen, ow)]))
           \<and> (enabled_displays m Full_screen \<noteq> x \<and> \<not> x \<longrightarrow>
                rectangles m' Full_screen = None
                \<and> (\<exists>old. rectangles m Full_screen = Some old
                       \<and> windows m' = remove1 (Full_screen, old) (windows m)))"
proof (cases "enabled_displays m Full_screen = x")
  case True
  then show ?thesis by (auto simp: select_full_screen_def set_state_unchanged fun_eq_iff)
next
  case False
  obtain b m1 where bm: "set_state m Full_screen x = (b, m1)" by (cases "set_state m Full_screen x")
  with False set_state_effect(6) [OF bm] have m1: "set_state m Full_screen x = (True, m1)" by simp
  note e = set_state_effect [OF m1]
  show ?thesis
  proof (cases x)
    case True
    obtain w h where wh: "screen_dimensions m1 = (w, h)" by (cases "screen_dimensions m1")
    have "select_full_screen m x =
            Inr (store_overlay Full_screen (0, 0) (w, h) (Xrandr_set_monitor ''full_screen'' w h 0 0 m1))"
      using m1 True wh by (simp add: select_full_screen_def Let_def)
    moreover have "windows m1 = windows m" using e(8) False True by simp
    ultimately show ?thesis using e(1,2,3) True False
      by (simp add: store_overlay_def Xrandr_set_monitor_def)
  next
    case False
    with \<open>enabled_displays m Full_screen \<noteq> x\<close> assms obtain old where
      old: "rectangles m Full_screen = Some old" by auto
    from False have "select_full_screen m x = Inr (Xrandr_del_monitor ''full_screen'' m1)"
      using m1 by (simp add: select_full_screen_def)
    then show ?thesis using e(1,2,3,9) False \<open>enabled_displays m Full_screen \<noteq> x\<close> old
      by (simp add: Xrandr_del_monitor_def)
  qed
qed

lemma toggled_grid_effect:
  assumes "area \<noteq> Select_region"
    and "enabled_displays m area \<longleftrightarrow> rectangles m area \<noteq> None"
  shows "\<exists>m'. toggled area m x = Inr m'
           \<and> enabled_displays m' = (enabled_displays m)(area := x)
           \<and> (\<forall>a. a \<noteq> area \<longrightarrow> rectangles m' a = rectangles m a)
           \<and> region_selector m' = region_selector m
           \<and> (enabled_displays m area = x \<longrightarrow> m' = m)
           \<and> (enabled_displays m area \<noteq> x \<and> x \<longrightarrow>
                (\<exists>ow. rectangles m' area = Some ow \<and> windows m' = windows m @ [(area, ow)]))
           \<and> (enabled_displays m area \<noteq> x \<and> \<not> x \<longrightarrow>
                rectangles m' area = None
                \<and> (\<exists>old. rectangles m area = Some old \<and> windows m' = remove1 (area, old) (windows m)))"
proof (cases area)
  case Select_region
  with assms show ?thesis by simp
next
  case Full_screen
  show ?thesis using assms(2) unfolding Full_screen toggled.simps by (rule select_full_screen_effect)
next
  case Right_half
  show ?thesis using assms(2) unfolding Right_half toggled.simps handler_defs
    by (intro select_cell_effect) simp_all
next
  case Left_half
  show ?thesis using assms(2) unfolding Left_half toggled.simps handler_defs
    by (intro select_cell_effect) simp_all
next
  case Left_third
  show ?thesis using assms(2) unfolding Left_third toggled.simps handler_defs
    by (intro select_cell_effect) simp_all
next
  case Center_third
  show ?thesis using assms(2) unfolding Center_third toggled.simps handler_defs
    by (intro select_cell_effect) simp_all
next
  case Right_third
  show ?thesis using assms(2) unfolding Right_third toggled.simps handler_defs
    by (intro select_cell_effect) simp_all
next
  case Top_left_quarter
  show ?thesis using assms(2) unfolding Top_left_quarter toggled.simps handler_defs
    by (intro select_cell_effect) simp_all
next
  case Top_right_quarter
  show ?thesis using assms(2) unfolding Top_right_quarter toggled.simps handler_defs
    by (intro select_cell_effect) simp_all
next
  case Bottom_left_quarter
  show ?thesis using assms(2) unfolding Bottom_left_quarter toggled.simps handler_defs
    by (intro select_cell_effect) simp_all
next
  case Bottom_right_quarter
  show ?thesis using assms(2) unfolding Bottom_right_quarter toggled.simps handler_defs
    by (intro select_cell_effect) simp_all
next
  case Top_left_sixth
  show ?thesis using assms(2) unfolding Top_left_sixth toggled.simps handler_defs
    by (intro select_cell_effect) simp_all
next
  case Top_center_sixth
  show ?thesis using assms(2) unfolding Top_center_sixth toggled.simps handler_defs
    by (intro select_cell_effect) simp_all
next
  case Top_right_sixth
  show ?thesis using assms(2) unfolding Top_right_sixth toggled.simps handler_defs
    by (intro select_cell_effect) simp_all
next
  case Bottom_left_sixth
  show ?thesis using assms(2) unfolding Bottom_left_sixth toggled.simps handler_defs
    by (intro select_cell_effect) simp_all
next
  case Bottom_center_sixth
  show ?thesis using assms(2) unfolding Bottom_center_sixth toggled.simps handler_defs
    by (intro select_cell_effect) simp_all
next
  case Bottom_right_sixth
  show ?thesis using assms(2) unfolding Bottom_right_sixth toggled.simps handler_defs
    by (intro select_cell_effect) simp_all
qed

lemma filter_area_remove1_other:
  assumes "a \<noteq> area"
  shows "filter (\<lambda>w. fst w = a) (remove1 (area, old) ws) = filter (\<lambda>w. fst w = a) ws"
proof -
  have "(area, old) \<notin> set (filter (\<lambda>w. fst w = a) ws)" using assms by auto
  then show ?thesis by (simp add: filter_remove1 remove1_idem)
qed

lemma filter_area_remove1_same:
  assumes "filter (\<lambda>w. fst w = area) ws = [(area, old)]"
  shows "filter (\<lambda>w. fst w = area) (remove1 (area, old) ws) = []"
  using assms by (simp add: filter_remove1)

lemma in_windows_remove1_other:
  assumes "a \<noteq> area" "(a, ow) \<in> set ws"
  shows "(a, ow) \<in> set (remove1 (area, old) ws)"
  using assms by (simp add: in_set_remove1)

lemma toggled_grid_keeps:
  assumes "consistent m" and "area \<noteq> Select_region"
  shows "\<exists>m'. toggled area m x = Inr m' \<and> consistent m'
           \<and> (selection_settled m \<longrightarrow> selection_settled m')"
proof -
  from assms have agree: "enabled_displays m area \<longleftrightarrow> rectangles m area \<noteq> None"
    and fa: "filter (\<lambda>w. fst w = area) (windows m) =
               (case rectangles m area of None \<Rightarrow> [] | Some ow \<Rightarrow> [(area, ow)])"
    by (simp_all add: consistent_def)
  from toggled_grid_effect [OF assms(2) agree, of x] obtain m' where
    t: "toggled area m x = Inr m'"
    and fl: "enabled_displays m' = (enabled_displays m)(area := x)"
    and re: "\<forall>a. a \<noteq> area \<longrightarrow> rectangles m' a = rectangles m a"
    and se: "region_selector m' = region_selector m"
    and same: "enabled_displays m area = x \<longrightarrow> m' = m"
    and on: "enabled_displays m area \<noteq> x \<and> x \<longrightarrow>
                (\<exists>ow. rectangles m' area = Some ow \<and> windows m' = windows m @ [(area, ow)])"
    and off: "enabled_displays m area \<noteq> x \<and> \<not> x \<longrightarrow>
                rectangles m' area = None
                \<and> (\<exists>old. rectangles m area = Some old \<and> windows m' = remove1 (area, old) (windows m))"
    by blast
  have "consistent m' \<and> (selection_settled m \<longrightarrow> selection_settled m')"
  proof (cases "enabled_displays m area = x")
    case True
    with same assms(1) show ?thesis by simp
  next
    case False
    show ?thesis
    proof (cases x)
      case True
      with False on obtain ow where
        ow: "rectangles m' area = Some ow" "windows m' = windows m @ [(area, ow)]" by blast
      from False True agree have none: "rectangles m area = None" by simp
      have other: "filter (\<lambda>w. fst w = a) (windows m') = filter (\<lambda>w. fst w = a) (windows m)"
        if "a \<noteq> area" for a using that ow(2) by simp
      have this_area: "filter (\<lambda>w. fst w = area) (windows m') = [(area, ow)]"
        using ow(2) fa none by simp
      have c: "consistent m'"
        unfolding consistent_def
      proof (intro conjI allI impI)
        fix a assume "a \<noteq> Select_region"
        then show "enabled_displays m' a \<longleftrightarrow> rectangles m' a \<noteq> None"
          using assms(1) fl re ow(1) True by (cases "a = area") (simp_all add: consistent_def)
      next
        fix a assume "a \<noteq> Select_region"
        then show "filter (\<lambda>w. fst w = a) (windows m') =
                     (case rectangles m' a of None \<Rightarrow> [] | Some ow \<Rightarrow> [(a, ow)])"
          using assms(1) re ow(1) this_area other
          by (cases "a = area") (simp_all add: consistent_def)
      next
        assume "enabled_displays m' Select_region \<and> rectangles m' Select_region = None"
        then show "capturing m'"
          using assms fl re se by (simp add: consistent_def capturing_def)
      next
        fix w assume "rectangles m' Select_region = Some w"
        then show "(Select_region, w) \<in> set (windows m')"
          using assms re ow(2) by (simp add: consistent_def)
      next
        assume "visible (region_selector m')"
        then show "onSnippingCompleted (region_selector m') = Some ()"
          "onSnippingCancelled (region_selector m') = Some ()"
          using assms(1) se by (simp_all add: consistent_def)
      qed
      have "selection_settled m'" if "selection_settled m"
        using that assms(2) fl re se other [of Select_region]
        by (simp add: selection_settled_def capturing_def)
      with c show ?thesis by simp
    next
      case xf: False
      with False off obtain old where
        old: "rectangles m' area = None" "rectangles m area = Some old"
          "windows m' = remove1 (area, old) (windows m)" by blast
      have other: "filter (\<lambda>w. fst w = a) (windows m') = filter (\<lambda>w. fst w = a) (windows m)"
        if "a \<noteq> area" for a using that old(3) by (simp add: filter_area_remove1_other)
      have this_area: "filter (\<lambda>w. fst w = area) (windows m') = []"
        using old(2,3) fa by (simp add: filter_area_remove1_same)
      have c: "consistent m'"
        unfolding consistent_def
      proof (intro conjI allI impI)
        fix a assume "a \<noteq> Select_region"
        then show "enabled_displays m' a \<longleftrightarrow> rectangles m' a \<noteq> None"
          using assms(1) fl re old(1) xf by (cases "a = area") (simp_all add: consistent_def)
      next
        fix a assume "a \<noteq> Select_region"
        then show "filter (\<lambda>w. fst w = a) (windows m') =
                     (case rectangles m' a of None \<Rightarrow> [] | Some ow \<Rightarrow> [(a, ow)])"
          using assms(1) re old(1) this_area other
          by (cases "a = area") (simp_all add: consistent_def)
      next
        assume "enabled_displays m' Select_region \<and> rectangles m' Select_region = None"
        then show "capturing m'"
          using assms fl re se by (simp add: consistent_def capturing_def)
      next
        fix w assume "rectangles m' Select_region = Some w"
        then have "(Select_region, w) \<in> set (windows m)"
          using assms re by (simp add: consistent_def)
        then show "(Select_region, w) \<in> set (windows m')"
          using assms(2) old(3) by (simp add: in_windows_remove1_other)
      next
        assume "visible (region_selector m')"
        then show "onSnippingCompleted (region_selector m') = Some ()"
          "onSnippingCancelled (region_selector m') = Some ()"
          using assms(1) se by (simp_all add: consistent_def)
      qed
      have "selection_settled m'" if "selection_settled m"
        using that assms(2) fl re se other [of Select_region]
        by (simp add: selection_settled_def capturing_def)
      with c show ?thesis by simp
    qed
  qed
  with t show ?thesis by blast
qed

lemma select_region_keeps:
  assumes "consistent m"
  shows "\<exists>m'. select_region m x = Inr m' \<and> consistent m'
           \<and> (selection_settled m \<and> (\<not> x \<longrightarrow> \<not> capturing m) \<longrightarrow> selection_settled m')"
proof (cases "enabled_displays m Select_region = x")
  case True
  then have "select_region m x = Inr m" by (simp add: select_region_def set_state_unchanged)
  with assms show ?thesis by simp
next
  case False
  obtain b m1 where bm: "set_state m Select_region x = (b, m1)"
    by (cases "set_state m Select_region x")
  with False set_state_effect(6) [OF bm] have m1: "set_state m Select_region x = (True, m1)" by simp
  note e = set_state_effect [OF m1]
  show ?thesis
  proof (cases x)
    case True
    let ?m' = "m1\<lparr>region_selector := start (Some ()) (Some ()) (region_selector m1)\<rparr>"
    have sr: "select_region m x = Inr ?m'" using m1 True by (simp add: select_region_def)
    have f: "enabled_displays ?m' = (enabled_displays m)(Select_region := True)"
      "rectangles ?m' = rectangles m" "windows ?m' = windows m"
      "visible (region_selector ?m')" "onSnippingCompleted (region_selector ?m') = Some ()"
      "onSnippingCancelled (region_selector ?m') = Some ()"
    proof -
      show "enabled_displays ?m' = (enabled_displays m)(Select_region := True)"
        using e(1) True by simp
      have "rectangles m1 a = rectangles m a" for a
        using e(2,8) False True by (cases "a = Select_region") simp_all
      then show "rectangles ?m' = rectangles m" by (simp add: fun_eq_iff)
      show "windows ?m' = windows m" using e(8) False True by simp
    qed (simp_all add: start_def)
    have c: "consistent ?m'"
      using assms f by (simp add: consistent_def capturing_def)
    have "selection_settled ?m'" if "selection_settled m"
      using that False True f by (auto simp: selection_settled_def capturing_def)
    with sr c show ?thesis by auto
  next
    case xf: False
    let ?m' = "Xrandr_del_monitor ''select_region'' m1"
    have sr: "select_region m x = Inr ?m'" using m1 xf by (simp add: select_region_def)
    have f: "enabled_displays ?m' = (enabled_displays m)(Select_region := False)"
      "\<forall>a. a \<noteq> Select_region \<longrightarrow> rectangles ?m' a = rectangles m a"
      "rectangles ?m' Select_region = None"
      "windows ?m' = (case rectangles m Select_region of
                        None \<Rightarrow> windows m
                      | Some old \<Rightarrow> remove1 (Select_region, old) (windows m))"
      "region_selector ?m' = region_selector m"
      using e(1,2,3,9) False xf by (simp_all add: Xrandr_del_monitor_def)
    have other: "filter (\<lambda>w. fst w = a) (windows ?m') = filter (\<lambda>w. fst w = a) (windows m)"
      if "a \<noteq> Select_region" for a
      using that unfolding f(4) by (simp add: filter_area_remove1_other split: option.splits)
    have c: "consistent ?m'"
      unfolding consistent_def
    proof (intro conjI allI impI)
      fix a assume "a \<noteq> Select_region"
      then show "enabled_displays ?m' a \<longleftrightarrow> rectangles ?m' a \<noteq> None"
        using assms f(1,2) by (simp add: consistent_def)
    next
      fix a assume a: "a \<noteq> Select_region"
      then show "filter (\<lambda>w. fst w = a) (windows ?m') =
                   (case rectangles ?m' a of None \<Rightarrow> [] | Some ow \<Rightarrow> [(a, ow)])"
        using assms f(2) other [OF a] by (simp add: consistent_def)
    next
      assume "enabled_displays ?m' Select_region \<and> rectangles ?m' Select_region = None"
      then show "capturing ?m'" using f(1) by simp
    next
      fix w assume "rectangles ?m' Select_region = Some w"
      then show "(Select_region, w) \<in> set (windows ?m')" using f(3) by simp
    next
      assume "visible (region_selector ?m')"
      then show "onSnippingCompleted (region_selector ?m') = Some ()"
        "onSnippingCancelled (region_selector ?m') = Some ()"
        using assms f(5) by (simp_all add: consistent_def)
    qed
    have "selection_settled ?m'" if s: "selection_settled m" and nc: "\<not> capturing m"
    proof -
      from False xf have en: "enabled_displays m Select_region" by simp
      with assms nc obtain old where old: "rectangles m Select_region = Some old"
        by (auto simp: consistent_def)
      with s have "filter (\<lambda>w. fst w = Select_region) (windows m) = [(Select_region, old)]"
        by (simp add: selection_settled_def)
      then have "filter (\<lambda>w. fst w = Select_region) (windows ?m') = []"
        unfolding f(4) old by (simp add: filter_area_remove1_same)
      moreover have "\<not> capturing ?m'" using nc f(5) by (simp add: capturing_def)
      ultimately show ?thesis using f(3) by (simp add: selection_settled_def)
    qed
    with sr c xf show ?thesis by auto
  qed
qed

lemma handle_toggled_keeps:
  assumes "consistent m"
  shows "\<exists>m'. handle (Toggled area x) m = Inr m' \<and> consistent m'
           \<and> (selection_settled m \<and> \<not> (area = Select_region \<and> \<not> x \<and> capturing m) \<longrightarrow>
                selection_settled m')"
proof -
  let ?m = "m\<lparr>buttons := (buttons m)(area := x)\<rparr>"
  have c: "consistent ?m" using assms by (simp add: consistent_def capturing_def)
  have s: "selection_settled ?m = selection_settled m" "capturing ?m = capturing m"
    by (simp_all add: selection_settled_def capturing_def)
  show ?thesis
  proof (cases "area = Select_region")
    case True
    from select_region_keeps [OF c, of x] True s show ?thesis by auto
  next
    case False
    from toggled_grid_keeps [OF c False, of x] s show ?thesis by auto
  qed
qed

lemma complete_region_selection_fields:
  "enabled_displays (complete_region_selection m p q) = enabled_displays m"
  "rectangles (complete_region_selection m p q) =
     (rectangles m)(Select_region \<mapsto> OutlineWidget_init p q)"
  "windows (complete_region_selection m p q) =
     windows m @ [(Select_region, OutlineWidget_init p q)]"
  "region_selector (complete_region_selection m p q) = region_selector m"
  by (simp_all add: complete_region_selection_def store_overlay_def Xrandr_set_monitor_def Let_def)

lemma cancel_region_selection_fields:
  "enabled_displays (cancel_region_selection m) = (enabled_displays m)(Select_region := False)"
  "\<forall>a. a \<noteq> Select_region \<longrightarrow>
     rectangles (cancel_region_selection m) a = rectangles m a"
  "region_selector (cancel_region_selection m) = region_selector m"
  "\<not> enabled_displays m Select_region \<longrightarrow> cancel_region_selection m = m"
  "enabled_displays m Select_region \<longrightarrow>
     rectangles (cancel_region_selection m) Select_region = None
     \<and> windows (cancel_region_selection m) =
         (case rectangles m Select_region of
            None \<Rightarrow> windows m
          | Some old \<Rightarrow> remove1 (Select_region, old) (windows m))"
proof -
  obtain b m1 where bm: "set_state m Select_region False = (b, m1)"
    by (cases "set_state m Select_region False")
  then have c: "cancel_region_selection m = m1" by (simp add: cancel_region_selection_def)
  note e = set_state_effect [OF bm]
  show "enabled_displays (cancel_region_selection m) = (enabled_displays m)(Select_region := False)"
    using e(1) c by simp
  show "\<forall>a. a \<noteq> Select_region \<longrightarrow>
     rectangles (cancel_region_selection m) a = rectangles m a"
    using e(2) c by simp
  show "region_selector (cancel_region_selection m) = region_selector m" using e(3) c by simp
  show "\<not> enabled_displays m Select_region \<longrightarrow> cancel_region_selection m = m"
    using e(7) c by simp
  show "enabled_displays m Select_region \<longrightarrow>
     rectangles (cancel_region_selection m) Select_region = None
     \<and> windows (cancel_region_selection m) =
         (case rectangles m Select_region of
            None \<Rightarrow> windows m
          | Some old \<Rightarrow> remove1 (Select_region, old) (windows m))"
    using e(9) c by simp
qed

lemma complete_keeps:
  assumes "consistent m" and "visible (region_selector m)" and "\<not> visible sel"
  shows "consistent (complete_region_selection (m\<lparr>region_selector := sel\<rparr>) p q)"
    and "selection_settled m \<Longrightarrow> onSnippingCompleted sel = None \<Longrightarrow>
           selection_settled (complete_region_selection (m\<lparr>region_selector := sel\<rparr>) p q)"
proof -
  let ?m' = "complete_region_selection (m\<lparr>region_selector := sel\<rparr>) p q"
  note f = complete_region_selection_fields [of "m\<lparr>region_selector := sel\<rparr>" p q]
  show "consistent ?m'"
    using assms by (simp add: consistent_def capturing_def f)
  assume s: "selection_settled m" and n: "onSnippingCompleted sel = None"
  from assms(1,2) have "capturing m" by (simp add: consistent_def capturing_def)
  with s have "enabled_displays m Select_region" "rectangles m Select_region = None"
    "filter (\<lambda>w. fst w = Select_region) (windows m) = []"
    by (simp_all add: selection_settled_def)
  then show "selection_settled ?m'"
    using n by (simp add: selection_settled_def capturing_def f)
qed

lemma cancel_keeps:
  assumes "consistent m" and "visible (region_selector m)" and "\<not> visible sel"
  shows "consistent (cancel_region_selection (m\<lparr>region_selector := sel\<rparr>))"
    and "selection_settled m \<Longrightarrow>
           selection_settled (cancel_region_selection (m\<lparr>region_selector := sel\<rparr>))"
proof -
  let ?m0 = "m\<lparr>region_selector := sel\<rparr>"
  let ?m' = "cancel_region_selection ?m0"
  note f = cancel_region_selection_fields [of ?m0]
  have other: "filter (\<lambda>w. fst w = a) (windows ?m') = filter (\<lambda>w. fst w = a) (windows m)"
    if "a \<noteq> Select_region" for a
  proof (cases "enabled_displays m Select_region")
    case True
    with f(5) that show ?thesis by (simp add: filter_area_remove1_other split: option.splits)
  next
    case False
    with f(4) show ?thesis by simp
  qed
  show "consistent ?m'"
    unfolding consistent_def
  proof (intro conjI allI impI)
    fix a assume "a \<noteq> Select_region"
    then show "enabled_displays ?m' a \<longleftrightarrow> rectangles ?m' a \<noteq> None"
      using assms(1) f(1,2) by (simp add: consistent_def)
  next
    fix a assume a: "a \<noteq> Select_region"
    then show "filter (\<lambda>w. fst w = a) (windows ?m') =
                 (case rectangles ?m' a of None \<Rightarrow> [] | Some ow \<Rightarrow> [(a, ow)])"
      using assms(1) f(2) other [OF a] by (simp add: consistent_def)
  next
    assume "enabled_displays ?m' Select_region \<and> rectangles ?m' Select_region = None"
    then show "capturing ?m'" using f(1) by simp
  next
    fix w assume w: "rectangles ?m' Select_region = Some w"
    show "(Select_region, w) \<in> set (windows ?m')"
    proof (cases "enabled_displays m Select_region")
      case True
      with f(5) w show ?thesis by simp
    next
      case False
      with f(4) w assms(1) show ?thesis by (simp add: consistent_def)
    qed
  next
    assume "visible (region_selector ?m')"
    then show "onSnippingCompleted (region_selector ?m') = Some ()"
      "onSnippingCancelled (region_selector ?m') = Some ()"
      using assms(3) f(3) by simp_all
  qed
  assume s: "selection_settled m"
  from assms(1,2) have "capturing m" by (simp add: consistent_def capturing_def)
  with s have en: "enabled_displays m Select_region" and none: "rectangles m Select_region = None"
    and fl: "filter (\<lambda>w. fst w = Select_region) (windows m) = []"
    by (simp_all add: selection_settled_def)
  from f(5) en none have "rectangles ?m' Select_region = None" "windows ?m' = windows m"
    by simp_all
  then show "selection_settled ?m'"
    using fl f(3) assms(3) by (simp add: selection_settled_def capturing_def)
qed

lemma complete_cancel_keeps:
  assumes "consistent m" and "visible (region_selector m)" and "\<not> visible sel"
  shows "consistent (cancel_region_selection
                       (complete_region_selection (m\<lparr>region_selector := sel\<rparr>) p q))"
    and "selection_settled m \<Longrightarrow>
           selection_settled (cancel_region_selection
                                (complete_region_selection (m\<lparr>region_selector := sel\<rparr>) p q))"
proof -
  let ?m1 = "complete_region_selection (m\<lparr>region_selector := sel\<rparr>) p q"
  let ?m' = "cancel_region_selection ?m1"
  let ?ow = "OutlineWidget_init p q"
  note g = complete_region_selection_fields [of "m\<lparr>region_selector := sel\<rparr>" p q]
  note f = cancel_region_selection_fields [of ?m1]
  have other: "filter (\<lambda>w. fst w = a) (windows ?m') = filter (\<lambda>w. fst w = a) (windows m)"
    if "a \<noteq> Select_region" for a
  proof (cases "enabled_displays m Select_region")
    case True
    with f(5) g that show ?thesis by (simp add: filter_area_remove1_other)
  next
    case False
    with f(4) g that show ?thesis by simp
  qed
  show "consistent ?m'"
    unfolding consistent_def
  proof (intro conjI allI impI)
    fix a assume "a \<noteq> Select_region"
    then show "enabled_displays ?m' a \<longleftrightarrow> rectangles ?m' a \<noteq> None"
      using assms(1) f(1,2) g by (simp add: consistent_def)
  next
    fix a assume a: "a \<noteq> Select_region"
    then show "filter (\<lambda>w. fst w = a) (windows ?m') =
                 (case rectangles ?m' a of None \<Rightarrow> [] | Some ow \<Rightarrow> [(a, ow)])"
      using assms(1) f(2) g other [OF a] by (simp add: consistent_def)
  next
    assume "enabled_displays ?m' Select_region \<and> rectangles ?m' Select_region = None"
    then show "capturing ?m'" using f(1) by simp
  next
    fix w assume w: "rectangles ?m' Select_region = Some w"
    show "(Select_region, w) \<in> set (windows ?m')"
    proof (cases "enabled_displays m Select_region")
      case True
      with f(5) g w show ?thesis by simp
    next
      case False
      with f(4) g w show ?thesis by simp
    qed
  next
    assume "visible (region_selector ?m')"
    then show "onSnippingCompleted (region_selector ?m') = Some ()"
      "onSnippingCancelled (region_selector ?m') = Some ()"
      using assms(3) f(3) g by simp_all
  qed
  assume s: "selection_settled m"
  from assms(1,2) have "capturing m" by (simp add: consistent_def capturing_def)
  with s have en: "enabled_displays m Select_region"
    and fl: "filter (\<lambda>w. fst w = Select_region) (windows m) = []"
    by (simp_all add: selection_settled_def)
  from f(5) en g have r: "rectangles ?m' Select_region = None"
    and w: "windows ?m' = remove1 (Select_region, ?ow) (windows m @ [(Select_region, ?ow)])"
    by simp_all
  have "filter (\<lambda>w. fst w = Select_region) (windows ?m') = []"
    unfolding w using fl by (simp add: filter_remove1)
  then show "selection_settled ?m'"
    using r f(3) g assms(3) by (simp add: selection_settled_def capturing_def)
qed

lemma handle_selector_keeps:
  assumes "consistent m"
  shows "\<exists>m'. handle (Selector ev) m = Inr m' \<and> consistent m'
           \<and> (selection_settled m \<longrightarrow> selection_settled m')"
proof (cases "visible (region_selector m)")
  case False
  then have "handle (Selector ev) m = Inr m" by (simp add: deliver_def)
  with assms show ?thesis by simp
next
  case True
  let ?sel = "region_selector m"
  from assms True have pre: "visible ?sel \<and> onSnippingCompleted ?sel = Some ()
      \<and> onSnippingCancelled ?sel = Some ()"
    by (simp add: consistent_def)
  obtain sel calls where h: "handle_event ev ?sel = (sel, calls)" by (cases "handle_event ev ?sel")
  from capture_outcomes(1) [of ?sel "()" "()" ev] pre h
  have o: "capture_outcome () () (sel, calls)" by simp
  have hd: "handle (Selector ev) m = Inr (foldl invoke (m\<lparr>region_selector := sel\<rparr>) calls)"
    using True h by (simp add: deliver_def)
  from o consider
      (running) "visible sel" "onSnippingCompleted sel = Some ()" "onSnippingCancelled sel = Some ()"
        "calls = []"
    | (completed) p q where "\<not> visible sel" "onSnippingCompleted sel = None" "calls = [Completed () p q]"
    | (cancelled) "\<not> visible sel" "onSnippingCompleted sel = None" "calls = [Cancelled ()]"
    | (both) p q where "\<not> visible sel" "onSnippingCompleted sel = None"
        "calls = [Completed () p q, Cancelled ()]"
    by (auto simp: capture_outcome_def)
  then show ?thesis
  proof cases
    case running
    have "consistent (m\<lparr>region_selector := sel\<rparr>)"
      using assms running by (simp add: consistent_def capturing_def)
    moreover have "selection_settled (m\<lparr>region_selector := sel\<rparr>)" if "selection_settled m"
      using that pre running by (simp add: selection_settled_def capturing_def)
    ultimately show ?thesis using hd running(4) by simp
  next
    case completed
    from complete_keeps [OF assms True completed(1), of p q] hd completed show ?thesis by simp
  next
    case cancelled
    from cancel_keeps [OF assms True cancelled(1)] hd cancelled show ?thesis by simp
  next
    case both
    from complete_cancel_keeps [OF assms True both(1), of p q] hd both show ?thesis by simp
  qed
qed

lemma handle_keeps:
  assumes "consistent m"
  shows "\<exists>m'. handle ev m = Inr m' \<and> consistent m'
           \<and> (selection_settled m \<and> (ev = Toggled Select_region False \<longrightarrow> \<not> capturing m) \<longrightarrow>
                selection_settled m')"
proof (cases ev)
  case (Toggled area x)
  from handle_toggled_keeps [OF assms, of area x] Toggled show ?thesis by auto
next
  case (Selector sev)
  from handle_selector_keeps [OF assms, of sev] Selector show ?thesis by auto
qed

lemma run_app_keeps:
  assumes "consistent m"
  shows "\<exists>m'. run_app evs m = Inr m' \<and> consistent m'
           \<and> (selection_settled m \<and> undisturbed evs m \<longrightarrow> selection_settled m')"
  using assms
proof (induction evs arbitrary: m)
  case Nil
  then show ?case by simp
next
  case (Cons ev evs)
  from handle_keeps [OF Cons.prems, of ev] obtain m1 where
    h: "handle ev m = Inr m1" and c: "consistent m1"
    and s: "selection_settled m \<and> (ev = Toggled Select_region False \<longrightarrow> \<not> capturing m) \<longrightarrow>
              selection_settled m1"
    by blast
  from Cons.IH [OF c] obtain m' where
    r: "run_app evs m1 = Inr m'" and c': "consistent m'"
    and s': "selection_settled m1 \<and> undisturbed evs m1 \<longrightarrow> selection_settled m'"
    by blast
  have "selection_settled m'" if "selection_settled m" "undisturbed (ev # evs) m"
    using that h s s' by simp
  with h r c' show ?case by simp
qed

lemma init_active_monitors_keeps:
  assumes "\<forall>area. (enabled_displays m area \<longleftrightarrow> rectangles m area \<noteq> None)
             \<and> filter (\<lambda>w. fst w = area) (windows m) =
                 (case rectangles m area of None \<Rightarrow> [] | Some ow \<Rightarrow> [(area, ow)])"
    and "init_active_monitors monitors m = Inr m'"
  shows "(\<forall>area. (enabled_displays m' area \<longleftrightarrow> rectangles m' area \<noteq> None)
             \<and> filter (\<lambda>w. fst w = area) (windows m') =
                 (case rectangles m' area of None \<Rightarrow> [] | Some ow \<Rightarrow> [(area, ow)]))
         \<and> region_selector m' = region_selector m"
  using assms
proof (induction monitors arbitrary: m)
  case Nil
  then show ?case by simp
next
  case (Cons mon rest)
  obtain idx name dimensions device where mon: "mon = (idx, name, dimensions, device)"
    by (cases mon)
  show ?case
  proof (cases "take 4 name = ''PYR-'' \<and> lookup_area (drop 4 name) \<noteq> None")
    case False
    with Cons.prems(2) mon have "init_active_monitors rest m = Inr m'" by auto
    with Cons.IH [OF Cons.prems(1)] show ?thesis by simp
  next
    case True
    with Cons.prems(2) mon obtain w h x y area where
      r: "init_active_monitors rest (snd (set_state (draw_outline m area w h x y) area True)) = Inr m'"
      by (auto split: sum.splits option.splits)
    let ?new = "OutlineWidget_init (x, y) (x + w, y + h)"
    let ?d = "draw_outline m area w h x y"
    have d: "enabled_displays ?d = enabled_displays m"
      "rectangles ?d = (rectangles m)(area \<mapsto> ?new)"
      "region_selector ?d = region_selector m"
      "windows ?d = (case rectangles m area of
                       None \<Rightarrow> windows m
                     | Some old \<Rightarrow> remove1 (area, old) (windows m)) @ [(area, ?new)]"
      by (auto simp: draw_outline_def destroy_overlay_def store_overlay_def Let_def dom_def
               split: option.splits)
    have fa: "filter (\<lambda>w. fst w = area) (windows ?d) = [(area, ?new)]"
      unfolding d(4) using Cons.prems(1)
      by (auto simp: filter_area_remove1_same split: option.splits)
    have fo: "filter (\<lambda>w. fst w = a) (windows ?d) = filter (\<lambda>w. fst w = a) (windows m)"
      if "a \<noteq> area" for a
      unfolding d(4) using that by (simp add: filter_area_remove1_other split: option.splits)
    obtain b m1 where bm: "set_state ?d area True = (b, m1)" by (cases "set_state ?d area True")
    note e = set_state_effect [OF bm]
    have rw: "rectangles m1 = rectangles ?d \<and> windows m1 = windows ?d"
    proof (cases "enabled_displays ?d area")
      case True
      with e(7) show ?thesis by simp
    next
      case False
      with e(2,8) have "rectangles m1 a = rectangles ?d a" for a by (cases "a = area") simp_all
      with e(8) False show ?thesis by (simp add: fun_eq_iff)
    qed
    have inv1: "\<forall>a. (enabled_displays m1 a \<longleftrightarrow> rectangles m1 a \<noteq> None)
             \<and> filter (\<lambda>w. fst w = a) (windows m1) =
                 (case rectangles m1 a of None \<Rightarrow> [] | Some ow \<Rightarrow> [(a, ow)])"
    proof
      fix a
      show "(enabled_displays m1 a \<longleftrightarrow> rectangles m1 a \<noteq> None)
             \<and> filter (\<lambda>w. fst w = a) (windows m1) =
                 (case rectangles m1 a of None \<Rightarrow> [] | Some ow \<Rightarrow> [(a, ow)])"
        using Cons.prems(1) e(1) rw d(1,2) fa fo [of a] by (cases "a = area") simp_all
    qed
    from Cons.IH [OF inv1] bm r e(3) d(3) show ?thesis by simp
  qed
qed

lemma constructed_consistent:
  assumes "VirtualDisplayManager_init screen_size form_buttons monitors = Inr m0"
  shows "consistent m0" and "selection_settled m0"
proof -
  let ?i = "\<lparr>screen_dimensions = screen_size, enabled_displays = (\<lambda>area. False),
             rectangles = Map.empty, windows = [], buttons = form_buttons, xrandr_calls = [],
             region_selector = SnippingWidget_init\<rparr>"
  have i: "\<forall>area. (enabled_displays ?i area \<longleftrightarrow> rectangles ?i area \<noteq> None)
             \<and> filter (\<lambda>w. fst w = area) (windows ?i) =
                 (case rectangles ?i area of None \<Rightarrow> [] | Some ow \<Rightarrow> [(area, ow)])"
    by simp
  from assms have "init_active_monitors monitors ?i = Inr m0"
    by (simp add: VirtualDisplayManager_init_def)
  from init_active_monitors_keeps [OF i this] have
    a: "\<forall>area. (enabled_displays m0 area \<longleftrightarrow> rectangles m0 area \<noteq> None)
             \<and> filter (\<lambda>w. fst w = area) (windows m0) =
                 (case rectangles m0 area of None \<Rightarrow> [] | Some ow \<Rightarrow> [(area, ow)])"
    and s: "\<not> visible (region_selector m0)"
    by (simp_all add: SnippingWidget_init_def)
  have mem: "(Select_region, ow) \<in> set (windows m0)" if "rectangles m0 Select_region = Some ow" for ow
  proof -
    from a that have "filter (\<lambda>w. fst w = Select_region) (windows m0) = [(Select_region, ow)]"
      by simp
    then have "(Select_region, ow) \<in> set (filter (\<lambda>w. fst w = Select_region) (windows m0))"
      by simp
    then show ?thesis by simp
  qed
  show "consistent m0" using a s mem by (auto simp: consistent_def capturing_def)
  show "selection_settled m0" using a s by (simp add: selection_settled_def capturing_def)
qed

lemma undisturbed_without_toggle_off:
  "Toggled Select_region False \<notin> set evs \<Longrightarrow> undisturbed evs m"
  by (induction evs arbitrary: m) (auto split: sum.splits)

lemma live_overlays_entry:
  assumes "filter (\<lambda>w. fst w = area) (windows m) =
             (case rectangles m area of None \<Rightarrow> [] | Some ow \<Rightarrow> [(area, ow)])"
  shows "live_overlays m area = (case rectangles m area of None \<Rightarrow> [] | Some ow \<Rightarrow> [ow])"
  using assms by (simp add: live_overlays_def split: option.splits)

lemma live_overlays_member:
  assumes "(area, ow) \<in> set (windows m)"
  shows "live_overlays m area \<noteq> []"
proof -
  from assms have "(area, ow) \<in> set (filter (\<lambda>w. fst w = area) (windows m))" by simp
  then have "filter (\<lambda>w. fst w = area) (windows m) \<noteq> []" by (metis empty_iff empty_set)
  then show ?thesis by (simp add: live_overlays_def)
qed

text \<open>
  Claim C2, as the code has it.  The claim asks, for every area and after every toggle
  event, that the flag is set exactly when an overlay of the area is alive.  Two runs
  from the manager of a 1920 by 1080 screen with no listed monitor show where
  \<^verbatim>\<open>select_region\<close> departs from it.  Enabling \<^verbatim>\<open>select_region\<close> sets its flag and
  only starts the interactive capture: when that toggle event is over the flag is true and
  there is no overlay (the state is written out).  And when \<^verbatim>\<open>select_region\<close> is
  toggled off while the capture is still running, the capture is not stopped: the mouse
  release that ends it makes the overlay, with the flag false.
\<close>

theorem select_region_flag_and_overlay_counterexample:
  "VirtualDisplayManager_init (1920, 1080) (\<lambda>area. False) [] =
     Inr \<lparr>screen_dimensions = (1920, 1080), enabled_displays = (\<lambda>area. False), rectangles = Map.empty,
      windows = [], buttons = (\<lambda>area. False), xrandr_calls = [],
      region_selector = SnippingWidget_init\<rparr>
   \<and> run_app [Toggled Select_region True]
        \<lparr>screen_dimensions = (1920, 1080), enabled_displays = (\<lambda>area. False), rectangles = Map.empty,
      windows = [], buttons = (\<lambda>area. False), xrandr_calls = [],
      region_selector = SnippingWidget_init\<rparr> =
     Inr \<lparr>screen_dimensions = (1920, 1080),
          enabled_displays = (\<lambda>area. False)(Select_region := True),
          rectangles = Map.empty,
          windows = [],
          buttons = (\<lambda>area. False)(Select_region := True),
          xrandr_calls = [],
          region_selector = start (Some ()) (Some ()) SnippingWidget_init\<rparr>
   \<and> ((\<lambda>area. False)(Select_region := True)) Select_region
   \<and> (Map.empty :: region \<rightharpoonup> OutlineWidget) Select_region = None
   \<and> map_sum id (\<lambda>m. (enabled_displays m Select_region, live_overlays m Select_region))
        (run_app [Toggled Select_region True, Toggled Select_region False, Selector (MouseRelease [])]
           \<lparr>screen_dimensions = (1920, 1080), enabled_displays = (\<lambda>area. False), rectangles = Map.empty,
      windows = [], buttons = (\<lambda>area. False), xrandr_calls = [],
      region_selector = SnippingWidget_init\<rparr>) =
     Inr (False, [OutlineWidget_init (0, 0) (0, 0)])"
proof (intro conjI)
  show "VirtualDisplayManager_init (1920, 1080) (\<lambda>area. False) [] =
     Inr \<lparr>screen_dimensions = (1920, 1080), enabled_displays = (\<lambda>area. False), rectangles = Map.empty,
      windows = [], buttons = (\<lambda>area. False), xrandr_calls = [],
      region_selector = SnippingWidget_init\<rparr>"
    by (simp add: VirtualDisplayManager_init_def)
  show "run_app [Toggled Select_region True]
        \<lparr>screen_dimensions = (1920, 1080), enabled_displays = (\<lambda>area. False), rectangles = Map.empty,
      windows = [], buttons = (\<lambda>area. False), xrandr_calls = [],
      region_selector = SnippingWidget_init\<rparr> =
     Inr \<lparr>screen_dimensions = (1920, 1080),
          enabled_displays = (\<lambda>area. False)(Select_region := True),
          rectangles = Map.empty,
          windows = [],
          buttons = (\<lambda>area. False)(Select_region := True),
          xrandr_calls = [],
          region_selector = start (Some ()) (Some ()) SnippingWidget_init\<rparr>"
    by (simp add: select_region_def set_state_def check_invalid_state_def setChecked_def Let_def)
  show "((\<lambda>area. False)(Select_region := True)) Select_region" by simp
  show "(Map.empty :: region \<rightharpoonup> OutlineWidget) Select_region = None" by simp
  show "map_sum id (\<lambda>m. (enabled_displays m Select_region, live_overlays m Select_region))
        (run_app [Toggled Select_region True, Toggled Select_region False, Selector (MouseRelease [])]
           \<lparr>screen_dimensions = (1920, 1080), enabled_displays = (\<lambda>area. False), rectangles = Map.empty,
      windows = [], buttons = (\<lambda>area. False), xrandr_calls = [],
      region_selector = SnippingWidget_init\<rparr>) =
     Inr (False, [OutlineWidget_init (0, 0) (0, 0)])"
    by (simp add: select_region_def set_state_def
          check_invalid_state_def setChecked_def Xrandr_del_monitor_def Let_def
          deliver_def start_def SnippingWidget_init_def mouseReleaseEvent_def repaint_def
          paintEvent_def complete_region_selection_def store_overlay_def Xrandr_set_monitor_def
          live_overlays_def QPoint0_def)
qed

text \<open>
  Claim C2, amended.  From the state the constructor builds and through every sequence of
  events (toggles, and events of the region selector with whatever is queued behind
  them), no handler raises, and:
  \<^item> for every area other than \<^verbatim>\<open>select_region\<close> the flag is true if and only if an
    overlay window of the area is alive, at most one is alive, and it is the one the dict
    \<^verbatim>\<open>rectangles\<close> holds;
  \<^item> for \<^verbatim>\<open>select_region\<close> a true flag means that an overlay of it is alive or that
    the capture which will make the overlay is still running;
  \<^item> as long as \<^verbatim>\<open>select_region\<close> is not toggled off while a capture is running, the
    flag of \<^verbatim>\<open>select_region\<close> is true if and only if an overlay of it is alive or a
    capture is running, never both, and at most one overlay of it is alive.
\<close>

theorem flags_match_overlays:
  assumes "VirtualDisplayManager_init screen_size form_buttons monitors = Inr m0"
  shows "\<exists>m. run_app evs m0 = Inr m
           \<and> (\<forall>area. area \<noteq> Select_region \<longrightarrow>
                 (enabled_displays m area \<longleftrightarrow> live_overlays m area \<noteq> [])
                 \<and> length (live_overlays m area) \<le> 1
                 \<and> live_overlays m area = (case rectangles m area of None \<Rightarrow> [] | Some ow \<Rightarrow> [ow]))
           \<and> (enabled_displays m Select_region \<longrightarrow>
                 live_overlays m Select_region \<noteq> [] \<or> capturing m)
           \<and> (undisturbed evs m0 \<longrightarrow>
                 (enabled_displays m Select_region \<longleftrightarrow>
                    live_overlays m Select_region \<noteq> [] \<or> capturing m)
                 \<and> \<not> (live_overlays m Select_region \<noteq> [] \<and> capturing m)
                 \<and> length (live_overlays m Select_region) \<le> 1)"
proof -
  note c0 = constructed_consistent [OF assms]
  from run_app_keeps [OF c0(1), of evs] c0(2) obtain m where
    r: "run_app evs m0 = Inr m" and c: "consistent m"
    and s: "undisturbed evs m0 \<longrightarrow> selection_settled m"
    by blast
  have grid: "(enabled_displays m area \<longleftrightarrow> live_overlays m area \<noteq> [])
              \<and> length (live_overlays m area) \<le> 1
              \<and> live_overlays m area = (case rectangles m area of None \<Rightarrow> [] | Some ow \<Rightarrow> [ow])"
    if "area \<noteq> Select_region" for area
  proof -
    from c that have a: "enabled_displays m area \<longleftrightarrow> rectangles m area \<noteq> None"
      and f: "filter (\<lambda>w. fst w = area) (windows m) =
                (case rectangles m area of None \<Rightarrow> [] | Some ow \<Rightarrow> [(area, ow)])"
      by (simp_all add: consistent_def)
    from live_overlays_entry [OF f] a show ?thesis by (simp split: option.splits)
  qed
  have sel: "live_overlays m Select_region \<noteq> [] \<or> capturing m" if "enabled_displays m Select_region"
  proof (cases "rectangles m Select_region")
    case None
    with c that show ?thesis by (simp add: consistent_def)
  next
    case (Some ow)
    with c have "(Select_region, ow) \<in> set (windows m)" by (simp add: consistent_def)
    then show ?thesis by (simp add: live_overlays_member)
  qed
  have settled: "(enabled_displays m Select_region \<longleftrightarrow>
                    live_overlays m Select_region \<noteq> [] \<or> capturing m)
                 \<and> \<not> (live_overlays m Select_region \<noteq> [] \<and> capturing m)
                 \<and> length (live_overlays m Select_region) \<le> 1"
    if "undisturbed evs m0"
  proof -
    from s that have ss: "selection_settled m" by simp
    then have f: "filter (\<lambda>w. fst w = Select_region) (windows m) =
                (case rectangles m Select_region of None \<Rightarrow> [] | Some ow \<Rightarrow> [(Select_region, ow)])"
      by (simp add: selection_settled_def)
    note l = live_overlays_entry [OF f]
    from ss have a: "rectangles m Select_region \<noteq> None \<longrightarrow> enabled_displays m Select_region"
      and b: "capturing m \<longrightarrow> enabled_displays m Select_region \<and> rectangles m Select_region = None"
      by (simp_all add: selection_settled_def)
    show ?thesis
    proof (cases "rectangles m Select_region")
      case None
      with l have "live_overlays m Select_region = []" by simp
      with sel b show ?thesis by auto
    next
      case (Some ow)
      with l have "live_overlays m Select_region = [ow]" by simp
      with a b Some show ?thesis by auto
    qed
  qed
  show ?thesis
  proof (rule exI [where x = m], intro conjI)
    show "run_app evs m0 = Inr m" by (rule r)
    show "\<forall>area. area \<noteq> Select_region \<longrightarrow>
                 (enabled_displays m area \<longleftrightarrow> live_overlays m area \<noteq> [])
                 \<and> length (live_overlays m area) \<le> 1
                 \<and> live_overlays m area = (case rectangles m area of None \<Rightarrow> [] | Some ow \<Rightarrow> [ow])"
      by (intro allI impI) (rule grid)
    show "enabled_displays m Select_region \<longrightarrow>
                 live_overlays m Select_region \<noteq> [] \<or> capturing m"
      by (intro impI) (rule sel)
    show "undisturbed evs m0 \<longrightarrow>
                 (enabled_displays m Select_region \<longleftrightarrow>
                    live_overlays m Select_region \<noteq> [] \<or> capturing m)
                 \<and> \<not> (live_overlays m Select_region \<noteq> [] \<and> capturing m)
                 \<and> length (live_overlays m Select_region) \<le> 1"
      by (intro impI) (rule settled)
  qed
qed

theorem flags_match_overlays_witness:
  "VirtualDisplayManager_init (1920, 1080) (\<lambda>area. False) [] =
     Inr \<lparr>screen_dimensions = (1920, 1080), enabled_displays = (\<lambda>area. False), rectangles = Map.empty,
      windows = [], buttons = (\<lambda>area. False), xrandr_calls = [],
      region_selector = SnippingWidget_init\<rparr>
   \<and> (\<exists>m. run_app [Toggled Select_region True, Selector (MousePress (10, 20)), Selector (MouseMove (30, 50)),
              Selector (MouseRelease []), Toggled Left_half True]
             \<lparr>screen_dimensions = (1920, 1080), enabled_displays = (\<lambda>area. False), rectangles = Map.empty,
      windows = [], buttons = (\<lambda>area. False), xrandr_calls = [],
      region_selector = SnippingWidget_init\<rparr> = Inr m
          \<and> (enabled_displays m Left_half \<longleftrightarrow> live_overlays m Left_half \<noteq> [])
          \<and> (enabled_displays m Select_region \<longleftrightarrow>
               live_overlays m Select_region \<noteq> [] \<or> capturing m)
          \<and> length (live_overlays m Select_region) \<le> 1)"
proof -
  let ?M0 = "\<lparr>screen_dimensions = (1920, 1080), enabled_displays = (\<lambda>area. False), rectangles = Map.empty,
      windows = [], buttons = (\<lambda>area. False), xrandr_calls = [],
      region_selector = SnippingWidget_init\<rparr>"
  let ?evs = "[Toggled Select_region True, Selector (MousePress (10, 20)), Selector (MouseMove (30, 50)),
              Selector (MouseRelease []), Toggled Left_half True]"
  have init: "VirtualDisplayManager_init (1920, 1080) (\<lambda>area. False) [] = Inr ?M0"
    by (simp add: VirtualDisplayManager_init_def)
  have u: "undisturbed ?evs ?M0"
    by (rule undisturbed_without_toggle_off) simp
  from flags_match_overlays [OF init, of ?evs] obtain m where
    r: "run_app ?evs ?M0 = Inr m"
    and g: "\<forall>area. area \<noteq> Select_region \<longrightarrow>
                 (enabled_displays m area \<longleftrightarrow> live_overlays m area \<noteq> [])
                 \<and> length (live_overlays m area) \<le> 1
                 \<and> live_overlays m area = (case rectangles m area of None \<Rightarrow> [] | Some ow \<Rightarrow> [ow])"
    and s: "undisturbed ?evs ?M0 \<longrightarrow>
                 (enabled_displays m Select_region \<longleftrightarrow>
                    live_overlays m Select_region \<noteq> [] \<or> capturing m)
                 \<and> \<not> (live_overlays m Select_region \<noteq> [] \<and> capturing m)
                 \<and> length (live_overlays m Select_region) \<le> 1"
    by (elim exE conjE)
  from g have "enabled_displays m Left_half \<longleftrightarrow> live_overlays m Left_half \<noteq> []" by simp
  moreover from s u have "enabled_displays m Select_region \<longleftrightarrow>
               live_overlays m Select_region \<noteq> [] \<or> capturing m"
    and "length (live_overlays m Select_region) \<le> 1" by simp_all
  ultimately have "run_app ?evs ?M0 = Inr m
          \<and> (enabled_displays m Left_half \<longleftrightarrow> live_overlays m Left_half \<noteq> [])
          \<and> (enabled_displays m Select_region \<longleftrightarrow>
               live_overlays m Select_region \<noteq> [] \<or> capturing m)
          \<and> length (live_overlays m Select_region) \<le> 1"
    using r by (intro conjI)
  then have "\<exists>m. run_app ?evs ?M0 = Inr m
          \<and> (enabled_displays m Left_half \<longleftrightarrow> live_overlays m Left_half \<noteq> [])
          \<and> (enabled_displays m Select_region \<longleftrightarrow>
               live_overlays m Select_region \<noteq> [] \<or> capturing m)
          \<and> length (live_overlays m Select_region) \<le> 1"
    by (rule exI [where x = m])
  with init show ?thesis by (rule conjI)
qed

section \<open>Start-up from the monitor list\<close>

lemma first_some_rev_upt:
  assumes "f k = Some v" "0 < k"
  shows "first_some (map f (rev [1 ..< Suc k])) = Some v"
proof -
  have "[1 ..< Suc k] = [1 ..< k] @ [k]" using assms(2) by simp
  then show ?thesis using assms(1) by simp
qed

lemma takeWhile_digits_then:
  assumes "list_all isdigit ds" "\<not> isdigit c"
  shows "takeWhile isdigit (ds @ c # rest) = ds"
  using assms by (induction ds) simp_all

lemma takeWhile_digits_all:
  assumes "list_all isdigit ds"
  shows "takeWhile isdigit ds = ds"
  using assms by (induction ds) simp_all

lemma match_group_lit:
  assumes "ds \<noteq> []" "list_all isdigit ds" "\<not> isdigit c" "match_toks ts rest = Some groups"
  shows "match_toks (DigitsGroup # Lit c # ts) (ds @ c # rest) = Some (ds # groups)"
proof -
  let ?f = "\<lambda>n. map_option (\<lambda>groups. take n (ds @ c # rest) # groups)
                   (match_toks (Lit c # ts) (drop n (ds @ c # rest)))"
  have "?f (length ds) = Some (ds # groups)" using assms(4) by simp
  moreover have "0 < length ds" using assms(1) by simp
  ultimately have "first_some (map ?f (rev [1 ..< Suc (length ds)])) = Some (ds # groups)"
    by (rule first_some_rev_upt)
  then show ?thesis by (simp add: takeWhile_digits_then [OF assms(2,3)])
qed

lemma match_digits_lit:
  assumes "ds \<noteq> []" "list_all isdigit ds" "\<not> isdigit c" "match_toks ts rest = Some groups"
  shows "match_toks (Digits # Lit c # ts) (ds @ c # rest) = Some groups"
proof -
  let ?f = "\<lambda>n. match_toks (Lit c # ts) (drop n (ds @ c # rest))"
  have "?f (length ds) = Some groups" using assms(4) by simp
  moreover have "0 < length ds" using assms(1) by simp
  ultimately have "first_some (map ?f (rev [1 ..< Suc (length ds)])) = Some groups"
    by (rule first_some_rev_upt)
  then show ?thesis by (simp add: takeWhile_digits_then [OF assms(2,3)])
qed

lemma match_group_end:
  assumes "ds \<noteq> []" "list_all isdigit ds"
  shows "match_toks [DigitsGroup] ds = Some [ds]"
proof -
  let ?f = "\<lambda>n. map_option (\<lambda>groups. take n ds # groups) (match_toks [] (drop n ds))"
  have "?f (length ds) = Some [ds]" by simp
  moreover have "0 < length ds" using assms(1) by simp
  ultimately have "first_some (map ?f (rev [1 ..< Suc (length ds)])) = Some [ds]"
    by (rule first_some_rev_upt)
  then show ?thesis by (simp add: takeWhile_digits_all [OF assms(2)])
qed

lemma search_toks_hit: "match_toks ts s = Some groups \<Longrightarrow> search_toks ts s = Some groups"
  by (cases s) simp_all

lemma not_digit_separators:
  "\<not> isdigit (CHR ''/'')" "\<not> isdigit (CHR ''x'')" "\<not> isdigit (CHR ''+'')"
  by (simp_all add: isdigit_def)

lemma parse_dimensions_token:
  assumes "W \<noteq> [] \<and> list_all isdigit W" "Wp \<noteq> [] \<and> list_all isdigit Wp"
    "H \<noteq> [] \<and> list_all isdigit H" "Hp \<noteq> [] \<and> list_all isdigit Hp"
    "X \<noteq> [] \<and> list_all isdigit X" "Y \<noteq> [] \<and> list_all isdigit Y"
  shows "parse_dimensions (W @ ''/'' @ Wp @ ''x'' @ H @ ''/'' @ Hp @ ''+'' @ X @ ''+'' @ Y) =
           Inr (py_int W, py_int H, py_int X, py_int Y)"
proof -
  note sep = not_digit_separators
  have 1: "match_toks [DigitsGroup] Y = Some [Y]" using assms(6) by (intro match_group_end) simp_all
  have 2: "match_toks [DigitsGroup, Lit (CHR ''+''), DigitsGroup] (X @ CHR ''+'' # Y) = Some [X, Y]"
    using assms(5) sep(3) 1 by (intro match_group_lit) simp_all
  have 3: "match_toks [Digits, Lit (CHR ''+''), DigitsGroup, Lit (CHR ''+''), DigitsGroup]
             (Hp @ CHR ''+'' # X @ CHR ''+'' # Y) = Some [X, Y]"
    using assms(4) sep(3) 2 by (intro match_digits_lit) simp_all
  have 4: "match_toks [DigitsGroup, Lit (CHR ''/''), Digits, Lit (CHR ''+''), DigitsGroup, Lit (CHR ''+''), DigitsGroup]
             (H @ CHR ''/'' # Hp @ CHR ''+'' # X @ CHR ''+'' # Y) = Some [H, X, Y]"
    using assms(3) sep(1) 3 by (intro match_group_lit) simp_all
  have 5: "match_toks [Digits, Lit (CHR ''x''), DigitsGroup, Lit (CHR ''/''), Digits, Lit (CHR ''+''),
                       DigitsGroup, Lit (CHR ''+''), DigitsGroup]
             (Wp @ CHR ''x'' # H @ CHR ''/'' # Hp @ CHR ''+'' # X @ CHR ''+'' # Y) = Some [H, X, Y]"
    using assms(2) sep(2) 4 by (intro match_digits_lit) simp_all
  have 6: "match_toks geometry_pattern
             (W @ CHR ''/'' # Wp @ CHR ''x'' # H @ CHR ''/'' # Hp @ CHR ''+'' # X @ CHR ''+'' # Y) =
           Some [W, H, X, Y]"
    unfolding geometry_pattern_def using assms(1) sep(1) 5 by (intro match_group_lit) simp_all
  have "search_toks geometry_pattern
             (W @ CHR ''/'' # Wp @ CHR ''x'' # H @ CHR ''/'' # Hp @ CHR ''+'' # X @ CHR ''+'' # Y) =
           Some [W, H, X, Y]"
    using 6 by (rule search_toks_hit)
  then show ?thesis by (simp add: parse_dimensions_def)
qed

lemma parse_left_half_token: "parse_dimensions ''960/1x1080/1+0+0'' = Inr (960, 1080, 0, 0)"
  by code_simp

lemma replace_PYR_left_half: "replace_PYR ''PYR-left_half'' = ''left_half''"
  by code_simp

text \<open>
  Claim C8.  When the manager is constructed and the monitor list has exactly one entry,
  named \<^verbatim>\<open>PYR-left_half\<close> with the geometry \<^verbatim>\<open>960/1x1080/1+0+0\<close>, the construction
  succeeds; in the resulting state \<^verbatim>\<open>left_half\<close> is the one enabled area, there is
  exactly one overlay window, the one of \<^verbatim>\<open>left_half\<close>, at (0, 0) with size 960 by 1080, and
  the gateway has not been called.  In general, from a geometry of the form
  \<^verbatim>\<open>W/PxH/Q+X+Y\<close> with six digit strings the width \<open>W\<close>, the height \<open>H\<close> and the
  offsets \<open>X\<close> and \<open>Y\<close> are read and the physical sizes \<open>P\<close> and \<open>Q\<close> are ignored.
\<close>

theorem startup_reconstructs_left_half:
  "(\<exists>m. VirtualDisplayManager_init screen_size form_buttons
           [(idx, ''PYR-left_half'', ''960/1x1080/1+0+0'', device)] = Inr m
        \<and> enabled_displays m = (\<lambda>area. area = Left_half)
        \<and> dom (rectangles m) = {Left_half}
        \<and> (\<exists>ow. rectangles m Left_half = Some ow \<and> coordinates ow = (0, 0) \<and> size_of ow = (960, 1080)
                \<and> windows m = [(Left_half, ow)])
        \<and> xrandr_calls m = [])
   \<and> ((\<forall>s \<in> set [W, Wp, H, Hp, X, Y]. s \<noteq> [] \<and> list_all isdigit s) \<longrightarrow>
        parse_dimensions (W @ ''/'' @ Wp @ ''x'' @ H @ ''/'' @ Hp @ ''+'' @ X @ ''+'' @ Y) =
          Inr (py_int W, py_int H, py_int X, py_int Y))"
proof (intro conjI impI)
  have la: "lookup_area ''left_half'' = Some Left_half"
    by (simp add: lookup_area_def regions_def)
  show "\<exists>m. VirtualDisplayManager_init screen_size form_buttons
           [(idx, ''PYR-left_half'', ''960/1x1080/1+0+0'', device)] = Inr m
        \<and> enabled_displays m = (\<lambda>area. area = Left_half)
        \<and> dom (rectangles m) = {Left_half}
        \<and> (\<exists>ow. rectangles m Left_half = Some ow \<and> coordinates ow = (0, 0) \<and> size_of ow = (960, 1080)
                \<and> windows m = [(Left_half, ow)])
        \<and> xrandr_calls m = []"
    by (auto simp: VirtualDisplayManager_init_def la parse_left_half_token replace_PYR_left_half
          set_state_def check_invalid_state_def setChecked_def draw_outline_def Let_def
          store_overlay_def destroy_overlay_def
          OutlineWidget_init_def coordinates_def size_of_def fun_eq_iff)
next
  assume "\<forall>s \<in> set [W, Wp, H, Hp, X, Y]. s \<noteq> [] \<and> list_all isdigit s"
  then show "parse_dimensions (W @ ''/'' @ Wp @ ''x'' @ H @ ''/'' @ Hp @ ''+'' @ X @ ''+'' @ Y) =
          Inr (py_int W, py_int H, py_int X, py_int Y)"
    by (intro parse_dimensions_token) simp_all
qed


theorem startup_reconstructs_left_half_witness:
  "list_all (\<lambda>s. s \<noteq> [] \<and> list_all isdigit s) [''1920'', ''344'', ''1080'', ''194'', ''10'', ''20'']
   \<and> parse_dimensions ''1920/344x1080/194+10+20'' = Inr (1920, 1080, 10, 20)"
proof -
  have h: "\<forall>s \<in> set [''1920'', ''344'', ''1080'', ''194'', ''10'', ''20'']. s \<noteq> [] \<and> list_all isdigit s"
    by (simp add: isdigit_def)
  from startup_reconstructs_left_half
         [of _ _ _ _ "''1920''" "''344''" "''1080''" "''194''" "''10''" "''20''"] h
  have "parse_dimensions (''1920'' @ ''/'' @ ''344'' @ ''x'' @ ''1080'' @ ''/'' @ ''194'' @ ''+'' @ ''10'' @ ''+'' @ ''20'') =
          Inr (py_int ''1920'', py_int ''1080'', py_int ''10'', py_int ''20'')"
    by blast
  moreover have "py_int ''1920'' = 1920" "py_int ''1080'' = 1080" "py_int ''10'' = 10" "py_int ''20'' = 20"
    by (simp_all add: py_int_def)
  ultimately have "parse_dimensions ''1920/344x1080/194+10+20'' = Inr (1920, 1080, 10, 20)"
    by simp
  moreover have "list_all (\<lambda>s. s \<noteq> [] \<and> list_all isdigit s)
                   [''1920'', ''344'', ''1080'', ''194'', ''10'', ''20'']"
    using h by (simp only: list_all_iff)
  ultimately show ?thesis by simp
qed

section \<open>A selection of no area\<close>

lemma str_int_0: "str_int 0 = ''0''"
  by code_simp

lemma release_completes:
  assumes "visible (region_selector m)" and "onSnippingCompleted (region_selector m) = Some ()"
  shows "handle (Selector (MouseRelease [])) m =
           Inr (complete_region_selection
                  (m\<lparr>region_selector := fst (handle_event (MouseRelease []) (region_selector m))\<rparr>)
                  (min (fst (begin_point (region_selector m))) (fst (end_point (region_selector m))),
                   min (snd (begin_point (region_selector m))) (snd (end_point (region_selector m))))
                  (max (fst (begin_point (region_selector m))) (fst (end_point (region_selector m))),
                   max (snd (begin_point (region_selector m))) (snd (end_point (region_selector m)))))"
  using assms
  by (simp add: deliver_def mouseReleaseEvent_def repaint_def paintEvent_def Let_def)

text \<open>
  Claim C10.  While a capture started by the manager is running (the selector is shown
  and holds the completion callback): a mouse release that arrives with both points still
  at the origin, no press before it and nothing queued behind it, completes the selection with the rectangle from
  (0, 0) to (0, 0): the overlay of \<^verbatim>\<open>select_region\<close> has size 0 by 0 and the gateway
  is asked to set a monitor of geometry \<^verbatim>\<open>0/1x0/1+0+0\<close>.  A press at \<open>p\<close> followed by
  the release, with no move, does the same at \<open>p\<close>: width and height are zero.  Nothing
  in between rejects the empty selection.
\<close>

theorem release_without_drag_sets_empty_monitor:
  assumes "visible (region_selector m)" and "onSnippingCompleted (region_selector m) = Some ()"
  shows "(begin_point (region_selector m) = QPoint0 \<and> end_point (region_selector m) = QPoint0 \<longrightarrow>
           (\<exists>m'. handle (Selector (MouseRelease [])) m = Inr m'
               \<and> (\<exists>ow. rectangles m' Select_region = Some ow
                       \<and> coordinates ow = (0, 0) \<and> size_of ow = (0, 0))
               \<and> xrandr_calls m' = xrandr_calls m @
                    [[''xrandr'', ''--setmonitor'', ''PYR-select_region'', ''0/1x0/1+0+0'', ''none'']]))
       \<and> (\<exists>m'. run_app [Selector (MousePress p), Selector (MouseRelease [])] m = Inr m'
               \<and> (\<exists>ow. rectangles m' Select_region = Some ow
                       \<and> coordinates ow = p \<and> size_of ow = (0, 0))
               \<and> xrandr_calls m' = xrandr_calls m @
                    [set_monitor_argv ''select_region'' 0 0 (fst p) (snd p) ''none''])"
proof (intro conjI impI)
  assume o: "begin_point (region_selector m) = QPoint0 \<and> end_point (region_selector m) = QPoint0"
  from release_completes [OF assms] have
    "handle (Selector (MouseRelease [])) m =
       Inr (complete_region_selection
              (m\<lparr>region_selector := fst (handle_event (MouseRelease []) (region_selector m))\<rparr>) (0, 0) (0, 0))"
    using o by (simp add: QPoint0_def)
  then show "\<exists>m'. handle (Selector (MouseRelease [])) m = Inr m'
               \<and> (\<exists>ow. rectangles m' Select_region = Some ow
                       \<and> coordinates ow = (0, 0) \<and> size_of ow = (0, 0))
               \<and> xrandr_calls m' = xrandr_calls m @
                    [[''xrandr'', ''--setmonitor'', ''PYR-select_region'', ''0/1x0/1+0+0'', ''none'']]"
    by (simp add: complete_region_selection_def store_overlay_def Xrandr_set_monitor_def
          set_monitor_argv_def OutlineWidget_init_def coordinates_def size_of_def str_int_0 Let_def)
next
  let ?m1 = "m\<lparr>region_selector := mousePressEvent p (region_selector m)\<rparr>"
  have h1: "handle (Selector (MousePress p)) m = Inr ?m1"
    using assms(1) by (simp add: deliver_def)
  have v: "visible (region_selector ?m1)" "onSnippingCompleted (region_selector ?m1) = Some ()"
    "begin_point (region_selector ?m1) = p" "end_point (region_selector ?m1) = p"
    using assms by (simp_all add: mousePressEvent_def)
  from release_completes [OF v(1,2)] have
    "handle (Selector (MouseRelease [])) ?m1 =
       Inr (complete_region_selection
              (?m1\<lparr>region_selector := fst (handle_event (MouseRelease []) (region_selector ?m1))\<rparr>) p p)"
    unfolding v(3,4) by simp
  with h1 show "\<exists>m'. run_app [Selector (MousePress p), Selector (MouseRelease [])] m = Inr m'
               \<and> (\<exists>ow. rectangles m' Select_region = Some ow
                       \<and> coordinates ow = p \<and> size_of ow = (0, 0))
               \<and> xrandr_calls m' = xrandr_calls m @
                    [set_monitor_argv ''select_region'' 0 0 (fst p) (snd p) ''none'']"
    by (simp add: complete_region_selection_def store_overlay_def Xrandr_set_monitor_def
          OutlineWidget_init_def coordinates_def size_of_def Let_def)
qed

theorem release_without_drag_sets_empty_monitor_witness:
  "visible (region_selector
      \<lparr>screen_dimensions = (1920, 1080),
          enabled_displays = (\<lambda>area. False)(Select_region := True),
          rectangles = Map.empty,
          windows = [],
          buttons = (\<lambda>area. False)(Select_region := True),
          xrandr_calls = [],
          region_selector = start (Some ()) (Some ()) SnippingWidget_init\<rparr>)
   \<and> onSnippingCompleted (region_selector
      \<lparr>screen_dimensions = (1920, 1080),
          enabled_displays = (\<lambda>area. False)(Select_region := True),
          rectangles = Map.empty,
          windows = [],
          buttons = (\<lambda>area. False)(Select_region := True),
          xrandr_calls = [],
          region_selector = start (Some ()) (Some ()) SnippingWidget_init\<rparr>) = Some ()
   \<and> begin_point (region_selector
      \<lparr>screen_dimensions = (1920, 1080),
          enabled_displays = (\<lambda>area. False)(Select_region := True),
          rectangles = Map.empty,
          windows = [],
          buttons = (\<lambda>area. False)(Select_region := True),
          xrandr_calls = [],
          region_selector = start (Some ()) (Some ()) SnippingWidget_init\<rparr>) = QPoint0
   \<and> end_point (region_selector
      \<lparr>screen_dimensions = (1920, 1080),
          enabled_displays = (\<lambda>area. False)(Select_region := True),
          rectangles = Map.empty,
          windows = [],
          buttons = (\<lambda>area. False)(Select_region := True),
          xrandr_calls = [],
          region_selector = start (Some ()) (Some ()) SnippingWidget_init\<rparr>) = QPoint0
   \<and> (\<exists>m'. handle (Selector (MouseRelease []))
      \<lparr>screen_dimensions = (1920, 1080),
          enabled_displays = (\<lambda>area. False)(Select_region := True),
          rectangles = Map.empty,
          windows = [],
          buttons = (\<lambda>area. False)(Select_region := True),
          xrandr_calls = [],
          region_selector = start (Some ()) (Some ()) SnippingWidget_init\<rparr> = Inr m'
        \<and> xrandr_calls m' =
            [[''xrandr'', ''--setmonitor'', ''PYR-select_region'', ''0/1x0/1+0+0'', ''none'']])"
proof -
  let ?M = "\<lparr>screen_dimensions = (1920, 1080),
          enabled_displays = (\<lambda>area. False)(Select_region := True),
          rectangles = Map.empty,
          windows = [],
          buttons = (\<lambda>area. False)(Select_region := True),
          xrandr_calls = [],
          region_selector = start (Some ()) (Some ()) SnippingWidget_init\<rparr>"
  have h: "visible (region_selector ?M)" "onSnippingCompleted (region_selector ?M) = Some ()"
    and o: "begin_point (region_selector ?M) = QPoint0 \<and> end_point (region_selector ?M) = QPoint0"
    by (simp_all add: start_def SnippingWidget_init_def)
  from release_without_drag_sets_empty_monitor [OF h, of "(0, 0)"] o
  obtain m' where "handle (Selector (MouseRelease [])) ?M = Inr m'"
    "xrandr_calls m' = xrandr_calls ?M @
        [[''xrandr'', ''--setmonitor'', ''PYR-select_region'', ''0/1x0/1+0+0'', ''none'']]"
    by blast
  then have "handle (Selector (MouseRelease [])) ?M = Inr m'
        \<and> xrandr_calls m' =
            [[''xrandr'', ''--setmonitor'', ''PYR-select_region'', ''0/1x0/1+0+0'', ''none'']]"
    by simp
  then have "\<exists>m'. handle (Selector (MouseRelease [])) ?M = Inr m'
        \<and> xrandr_calls m' =
            [[''xrandr'', ''--setmonitor'', ''PYR-select_region'', ''0/1x0/1+0+0'', ''none'']]"
    by (rule exI [where x = m'])
  with h o show ?thesis by (intro conjI) simp_all
qed

end
